theory Spec2Isabelle
  imports Complex_Main
begin

section \<open>Python values and string methods\<close>

text \<open>
  A Python \<open>str\<close> is modelled as a \<open>string\<close> whose characters are the code points
  below 256. The values that travel through the request pipeline (decoded JSON, query
  parameters, rows of a result) are \<open>pyval\<close>s. A \<open>dict\<close> is an association list in
  insertion order; a float is kept by its exact decimal value (IEEE rounding is outside
  the model).
\<close>

datatype pyval =
    VNone
  | VBool bool
  | VInt int
  | VFloat rat
  | VStr string
  | VList "pyval list"
  | VDict "(pyval \<times> pyval) list"

text \<open>Truth value testing (\<open>if x:\<close>, \<open>not x\<close>, \<open>x or y\<close>).\<close>

fun truthy :: "pyval \<Rightarrow> bool" where
  "truthy VNone = False"
| "truthy (VBool b) = b"
| "truthy (VInt n) = (n \<noteq> 0)"
| "truthy (VFloat r) = (r \<noteq> 0)"
| "truthy (VStr s) = (s \<noteq> [])"
| "truthy (VList xs) = (xs \<noteq> [])"
| "truthy (VDict d) = (d \<noteq> [])"

text \<open>\<open>str.isspace\<close> on one character: the code points below 256 that Python counts as
  whitespace (9-13, 28-32, 133, 160). \<open>str.strip()\<close> and the regular expression class
  \<open>\s\<close> use the same set.\<close>

definition isspace :: "char \<Rightarrow> bool" where
  "isspace c = (c \<in> set [CHR 0x09, CHR 0x0A, CHR 0x0B, CHR 0x0C, CHR 0x0D,
                          CHR 0x1C, CHR 0x1D, CHR 0x1E, CHR 0x1F, CHR 0x20,
                          CHR 0x85, CHR 0xA0])"

text \<open>\<open>str.lower\<close> on one character: A-Z and the upper-case letters of Latin-1
  (192-222 but 215, the multiplication sign) move up by 32.\<close>

definition lower_char :: "char \<Rightarrow> char" where
  "lower_char c =
     (let n = (of_char c :: nat)
      in if (65 \<le> n \<and> n \<le> 90) \<or> (192 \<le> n \<and> n \<le> 222 \<and> n \<noteq> 215)
         then char_of (n + 32) else c)"

definition lower :: "string \<Rightarrow> string" where
  "lower s = map lower_char s"

definition strip :: "string \<Rightarrow> string" where
  "strip s = rev (dropWhile isspace (rev (dropWhile isspace s)))"

definition startswith :: "string \<Rightarrow> string \<Rightarrow> bool" where
  "startswith s p = (take (length p) s = p)"

section \<open>The query gateway: \<open>APIServer.execute_db_query\<close>\<close>

text \<open>
  What the gateway does to the outside world is recorded as a trace: a prompt on the
  operator's terminal, a statement handed to \<open>cursor.execute\<close>, a \<open>conn.commit()\<close>.
  The store answers a statement as a function of everything that happened before.
\<close>

datatype event =
    Prompted string pyval
  | Execute string pyval
  | Committed

datatype exec_outcome =
    ExecOperationalError
  | ExecException
  | ExecDone "string list option" "pyval list list" int

text \<open>\<open>ExecDone description rows rowcount\<close>: \<open>cursor.description\<close> (its column names),
  what \<open>cursor.fetchall()\<close> gives and \<open>cursor.rowcount\<close>.\<close>

record db_env =
  has_database_config :: bool
  db_type :: string
  env_user :: string
  env_password :: string
  connect_ok :: bool
  run :: "event list \<Rightarrow> string \<Rightarrow> pyval \<Rightarrow> exec_outcome"

text \<open>\<open>env_user\<close> and \<open>env_password\<close> are what \<open>os.environ.get(..., "")\<close> returns;
  \<open>connect_ok\<close> says whether \<open>psycopg2.connect\<close> succeeds.\<close>

record gw_state =
  data_modification_permission :: bool
  stdin :: "string list"
  trace :: "event list"

text \<open>\<open>stdin\<close> holds the lines the operator will type at the prompts still to come.\<close>

datatype gw_result =
    Error string
  | Success "pyval option" int

text \<open>The returned dict: \<open>{"error": msg, ...}\<close> (the free-text \<open>details\<close>, \<open>query\<close> and
  \<open>traceback\<close> fields are left out) or \<open>{"status": "success", "data"?: ..., "rowCount": n}\<close>.\<close>

text \<open>Keys that compare equal in Python (\<open>1 == True == 1.0\<close>) are one key of a dict.\<close>

fun py_key :: "pyval \<Rightarrow> pyval" where
  "py_key (VBool b) = VInt (if b then 1 else 0)"
| "py_key (VFloat r) = (if r = of_int \<lfloor>r\<rfloor> then VInt \<lfloor>r\<rfloor> else VFloat r)"
| "py_key v = v"

text \<open>\<open>d[k] = v\<close>: an existing key keeps its place (and its first spelling), a new key
  goes last.\<close>

fun dict_set :: "(pyval \<times> pyval) list \<Rightarrow> pyval \<Rightarrow> pyval \<Rightarrow> (pyval \<times> pyval) list" where
  "dict_set [] k v = [(k, v)]"
| "dict_set ((k', v') # d) k v =
     (if py_key k' = py_key k then (k', v) # d else (k', v') # dict_set d k v)"

fun dict_get :: "(pyval \<times> pyval) list \<Rightarrow> pyval \<Rightarrow> pyval option" where
  "dict_get [] k = None"
| "dict_get ((k', v') # d) k = (if py_key k' = py_key k then Some v' else dict_get d k)"

text \<open>\<open>d.update(other)\<close> for a dict \<open>other\<close>, and \<open>dict(pairs)\<close>.\<close>

fun dict_update :: "(pyval \<times> pyval) list \<Rightarrow> (pyval \<times> pyval) list \<Rightarrow> (pyval \<times> pyval) list" where
  "dict_update d [] = d"
| "dict_update d ((k, v) # kvs) = dict_update (dict_set d k v) kvs"

definition dict_of :: "(pyval \<times> pyval) list \<Rightarrow> (pyval \<times> pyval) list" where
  "dict_of kvs = dict_update [] kvs"

definition modification_ops :: "string list" where
  "modification_ops = [''insert'', ''update'', ''delete'', ''drop'', ''create'', ''alter'']"

text \<open>Lines 427-440: \<open>is_modification\<close> stays \<open>False\<close> when \<open>read_only\<close> is set; otherwise
  it is \<open>any(lower_query.startswith(op) for op in [...])\<close>.\<close>

definition is_modification :: "bool \<Rightarrow> string \<Rightarrow> bool" where
  "is_modification read_only query =
     (if \<not> read_only
      then (let lower_query = strip (lower query)
            in list_ex (startswith lower_query) modification_ops)
      else False)"

text \<open>Lines 457-476: the statement goes to \<open>cursor.execute(query, params or [])\<close>; a
  result with column metadata becomes a list of dicts; a modification is committed.\<close>

definition or_empty :: "pyval \<Rightarrow> pyval" where
  "or_empty params = (if truthy params then params else VList [])"

definition run_statement ::
  "db_env \<Rightarrow> gw_state \<Rightarrow> string \<Rightarrow> pyval \<Rightarrow> bool \<Rightarrow> gw_result \<times> gw_state" where
  "run_statement env s query params is_mod =
     (let p = or_empty params;
          s1 = s\<lparr>trace := trace s @ [Execute query p]\<rparr>
      in case run env (trace s) query p of
           ExecOperationalError \<Rightarrow> (Error ''Database connection failed'', s1)
         | ExecException \<Rightarrow> (Error ''Query execution failed'', s1)
         | ExecDone description rows rowcount \<Rightarrow>
             (let result =
                   (case description of
                      None \<Rightarrow> Success None rowcount
                    | Some column_names \<Rightarrow>
                        if column_names = [] then Success None rowcount
                        else Success
                               (Some (VList (map (\<lambda>row. VDict (dict_of (zip (map VStr column_names) row))) rows)))
                               (int (length rows)))
              in (result, if is_mod then s1\<lparr>trace := trace s1 @ [Committed]\<rparr> else s1)))"

text \<open>Lines 443-454: the permission gate. \<open>input()\<close> on an exhausted terminal raises
  \<open>EOFError\<close>, which the function's \<open>except Exception\<close> turns into an error result.\<close>

definition permission_gate ::
  "db_env \<Rightarrow> gw_state \<Rightarrow> string \<Rightarrow> pyval \<Rightarrow> bool \<Rightarrow> gw_result \<times> gw_state" where
  "permission_gate env s query params read_only =
     (let is_mod = is_modification read_only query
      in if is_mod \<and> \<not> data_modification_permission s
         then (let s1 = s\<lparr>trace := trace s @ [Prompted query params]\<rparr>
               in case stdin s of
                    [] \<Rightarrow> (Error ''Query execution failed'', s1)
                  | response # rest \<Rightarrow>
                      (let s2 = s1\<lparr>stdin := rest\<rparr>
                       in if lower response = ''all''
                          then run_statement env (s2\<lparr>data_modification_permission := True\<rparr>)
                                 query params is_mod
                          else if lower response \<noteq> ''y''
                          then (Error ''Operation not authorized by user'', s2)
                          else run_statement env s2 query params is_mod))
         else run_statement env s query params is_mod)"

text \<open>Lines 388-492. A \<open>query\<close> that is not a \<open>str\<close> fails inside the \<open>try\<close> (at
  \<open>query.lower()\<close> or in \<open>cursor.execute\<close>) after the connection is open.\<close>

definition execute_db_query ::
  "db_env \<Rightarrow> gw_state \<Rightarrow> pyval \<Rightarrow> pyval \<Rightarrow> pyval \<Rightarrow> gw_result \<times> gw_state" where
  "execute_db_query env s query params read_only =
     (if \<not> has_database_config env then (Error ''No database connection configured'', s)
      else if db_type env \<noteq> ''postgresql''
      then (Error (''Unsupported database type: '' @ db_type env), s)
      else if env_password env = [] then (Error ''Database password not set'', s)
      else if env_user env = [] then (Error ''Database user not set'', s)
      else if \<not> connect_ok env then (Error ''Database connection failed'', s)
      else case query of
             VStr q \<Rightarrow> permission_gate env s q params (truthy read_only)
           | _ \<Rightarrow> (Error ''Query execution failed'', s))"

text \<open>The spec's words for the classification: the leading keyword of a statement is
  its first word, read after trimming and in lower case.\<close>

definition leading_keyword :: "string \<Rightarrow> string" where
  "leading_keyword query = takeWhile (\<lambda>c. \<not> isspace c) (strip (lower query))"

text \<open>The guards of lines 390-423 all passed: the gateway reached the classification.\<close>

definition env_ready :: "db_env \<Rightarrow> bool" where
  "env_ready env =
     (has_database_config env \<and> db_type env = ''postgresql'' \<and> env_password env \<noteq> []
      \<and> env_user env \<noteq> [] \<and> connect_ok env)"

text \<open>The process lifetime as seen by the gateway: any sequence of calls, each with the
  environment of its moment, threading the gateway's state.\<close>

fun serve_calls :: "gw_state \<Rightarrow> (db_env \<times> pyval \<times> pyval \<times> pyval) list \<Rightarrow> gw_state" where
  "serve_calls s [] = s"
| "serve_calls s ((env, query, params, read_only) # calls) =
     serve_calls (snd (execute_db_query env s query params read_only)) calls"

text \<open>The events a call added to the trace.\<close>

definition new_events :: "gw_state \<Rightarrow> gw_state \<Rightarrow> event list" where
  "new_events s s' = drop (length (trace s)) (trace s')"

text \<open>A store that accepts every statement and reports no rows, and a process that has
  just started with the given lines waiting on the terminal.\<close>

definition demo_env :: db_env where
  "demo_env =
     \<lparr>has_database_config = True, db_type = ''postgresql'', env_user = ''app'',
      env_password = ''secret'', connect_ok = True,
      run = (\<lambda>_ _ _. ExecDone None [] 0)\<rparr>"

definition fresh :: "string list \<Rightarrow> gw_state" where
  "fresh lines = \<lparr>data_modification_permission = False, stdin = lines, trace = []\<rparr>"

section \<open>The route matcher: \<open>RequestHandler._path_matches\<close> and the endpoint loop\<close>

record api =
  api_name :: string
  api_method :: string
  api_path :: string
  api_description :: string
  api_implementation :: string

text \<open>\<open>s.split(sep)\<close> for a one-character separator: never empty, \<open>"".split("/") == [""]\<close>.
  (The recursive call never returns \<open>[]\<close>; that branch only makes the function total.)\<close>

fun split_on :: "char \<Rightarrow> string \<Rightarrow> string list" where
  "split_on sep [] = [[]]"
| "split_on sep (c # cs) =
     (if c = sep then [] # split_on sep cs
      else (case split_on sep cs of [] \<Rightarrow> [[c]] | p # ps \<Rightarrow> (c # p) # ps))"

text \<open>\<open>s.strip("/")\<close>.\<close>

definition strip_slashes :: "string \<Rightarrow> string" where
  "strip_slashes s =
     rev (dropWhile (\<lambda>c. c = CHR ''/'') (rev (dropWhile (\<lambda>c. c = CHR ''/'') s)))"

text \<open>One part of the pattern, as lines 1004-1012 compile it: \<open>{name}\<close> becomes the
  group \<open>([^/]+)\<close>, anything else becomes \<open>re.escape(part)\<close>, a regular expression
  that matches exactly the characters of \<open>part\<close>.\<close>

datatype segment = Literal string | Placeholder string

definition compile_part :: "string \<Rightarrow> segment" where
  "compile_part part =
     (if startswith part ''{'' \<and> part \<noteq> [] \<and> last part = CHR ''}''
      then Placeholder (butlast (tl part)) else Literal part)"

fun param_names :: "segment list \<Rightarrow> string list" where
  "param_names [] = []"
| "param_names (Literal l # segs) = param_names segs"
| "param_names (Placeholder n # segs) = n # param_names segs"

text \<open>
  \<open>re.match("^/" + "/".join(pattern_parts) + "$", request_path)\<close>, read from left to
  right: every part is preceded by a slash; an escaped literal consumes exactly its own
  characters; the greedy group \<open>[^/]+\<close> takes the longest run of characters other than the
  slash, which must not be empty (giving characters back can never help, since what
  follows a group is a slash or the end); \<open>$\<close> accepts the end of the text, or a single
  newline that ends it. The result holds \<open>match.groups()\<close>.
\<close>

fun regex_match :: "segment list \<Rightarrow> string \<Rightarrow> string list option" where
  "regex_match [] rest = (if rest = [] \<or> rest = [CHR 0x0A] then Some [] else None)"
| "regex_match (seg # segs) rest =
     (case rest of
        [] \<Rightarrow> None
      | c # cs \<Rightarrow>
          if c \<noteq> CHR ''/'' then None
          else (case seg of
                  Literal l \<Rightarrow>
                    if startswith cs l then regex_match segs (drop (length l) cs) else None
                | Placeholder n \<Rightarrow>
                    (let g = takeWhile (\<lambda>c. c \<noteq> CHR ''/'') cs
                     in if g = [] then None
                        else map_option (\<lambda>gs. g # gs)
                               (regex_match segs (dropWhile (\<lambda>c. c \<noteq> CHR ''/'') cs)))))"

definition path_matches :: "string \<Rightarrow> string \<Rightarrow> bool \<times> (pyval \<times> pyval) list" where
  "path_matches pattern_path request_path =
     (let path_parts = split_on CHR ''/'' (strip_slashes pattern_path);
          segs = map compile_part path_parts
      in case regex_match segs request_path of
           Some groups \<Rightarrow>
             if param_names segs \<noteq> []
             then (True, dict_of (zip (map VStr (param_names segs)) (map VStr groups)))
             else (True, [])
         | None \<Rightarrow> (False, []))"

text \<open>Lines 850-860: the first endpoint with the request's method whose pattern matches.\<close>

fun find_api :: "api list \<Rightarrow> string \<Rightarrow> string \<Rightarrow> (api \<times> (pyval \<times> pyval) list) option" where
  "find_api [] method path = None"
| "find_api (a # apis) method path =
     (if api_method a = method
      then (case path_matches (api_path a) path of
              (True, params) \<Rightarrow> Some (a, params)
            | (False, params) \<Rightarrow> find_api apis method path)
      else find_api apis method path)"

section \<open>The request normalizer: query string and body\<close>

text \<open>\<open>"?" in s\<close> and the like, \<open>s.count(c)\<close>, \<open>s.replace(c, "", 1)\<close>.\<close>

definition count_char :: "char \<Rightarrow> string \<Rightarrow> nat" where
  "count_char c s = length (filter (\<lambda>x. x = c) s)"

fun remove_first :: "char \<Rightarrow> string \<Rightarrow> string" where
  "remove_first c [] = []"
| "remove_first c (x # xs) = (if x = c then xs else x # remove_first c xs)"

definition ascii_digit :: "char \<Rightarrow> bool" where
  "ascii_digit c = (48 \<le> (of_char c :: nat) \<and> (of_char c :: nat) \<le> 57)"

text \<open>\<open>str.isdigit\<close>: not empty, and every character is a digit; below 256 these are 0-9
  and the superscripts 178, 179 and 185, which \<open>int()\<close> and \<open>float()\<close> reject.\<close>

definition isdigit :: "string \<Rightarrow> bool" where
  "isdigit s =
     (s \<noteq> [] \<and> list_all (\<lambda>c. ascii_digit c \<or> c \<in> set [CHR 0xB2, CHR 0xB3, CHR 0xB9]) s)"

definition digits_value :: "string \<Rightarrow> nat" where
  "digits_value s = foldl (\<lambda>n c. 10 * n + ((of_char c :: nat) - 48)) 0 s"

text \<open>\<open>int(value)\<close> for a value that passed \<open>isdigit\<close>: a \<open>ValueError\<close> (\<open>None\<close>) on a
  superscript digit, and, in the interpreters that limit the conversion, on more than
  4300 digits.\<close>

definition int_max_str_digits :: nat where
  "int_max_str_digits = 4300"

definition py_int :: "string \<Rightarrow> int option" where
  "py_int s =
     (if list_all ascii_digit s \<and> length s \<le> int_max_str_digits
      then Some (int (digits_value s)) else None)"

text \<open>\<open>float(value)\<close> for a value with one point whose other characters passed
  \<open>isdigit\<close>: the decimal number written, or a \<open>ValueError\<close> on a superscript digit.\<close>

definition py_float :: "string \<Rightarrow> rat option" where
  "py_float s =
     (if list_all ascii_digit (remove_first CHR ''.'' s)
      then Some (of_nat (digits_value (remove_first CHR ''.'' s))
                 / of_nat (10 ^ length (tl (dropWhile (\<lambda>c. c \<noteq> CHR ''.'') s))))
      else None)"

text \<open>Lines 889-900: the coercion of a single query value; the \<open>except (ValueError,
  AttributeError): pass\<close> leaves the string as it is.\<close>

definition coerce :: "string \<Rightarrow> pyval" where
  "coerce value =
     (if isdigit value
      then (case py_int value of Some n \<Rightarrow> VInt n | None \<Rightarrow> VStr value)
      else if isdigit (remove_first CHR ''.'' value) \<and> count_char CHR ''.'' value = 1
      then (case py_float value of Some r \<Rightarrow> VFloat r | None \<Rightarrow> VStr value)
      else VStr value)"

text \<open>Lines 884-902: one entry of \<open>parsed_params\<close> per key of \<open>parse_qs\<close>.\<close>

definition query_value :: "string list \<Rightarrow> pyval" where
  "query_value values =
     (if length values = 1 then coerce (hd values) else VList (map VStr values))"

definition parsed_params :: "(string \<times> string list) list \<Rightarrow> (pyval \<times> pyval) list" where
  "parsed_params qs = dict_of (map (\<lambda>(key, values). (VStr key, query_value values)) qs)"

text \<open>\<open>urlparse(self.path).query\<close>: what follows the first \<open>?\<close> in the part before the
  first \<open>#\<close>; \<open>self.path.split("?")[0]\<close>: what precedes the first \<open>?\<close>.\<close>

definition urlparse_query :: "string \<Rightarrow> string" where
  "urlparse_query raw =
     (case dropWhile (\<lambda>c. c \<noteq> CHR ''?'') (takeWhile (\<lambda>c. c \<noteq> CHR ''#'') raw) of
        [] \<Rightarrow> []
      | c # q \<Rightarrow> q)"

definition path_of :: "string \<Rightarrow> string" where
  "path_of raw = takeWhile (\<lambda>c. c \<noteq> CHR ''?'') raw"

text \<open>\<open>pair.split("=", 1)\<close> when the pair holds an equals sign.\<close>

definition split_first :: "char \<Rightarrow> string \<Rightarrow> string \<times> string" where
  "split_first sep s = (takeWhile (\<lambda>c. c \<noteq> sep) s, tl (dropWhile (\<lambda>c. c \<noteq> sep) s))"

text \<open>\<open>urllib.parse.parse_qsl\<close> with its defaults: fields are separated by \<open>&\<close>; a field
  without \<open>=\<close> or with a blank value is dropped; \<open>+\<close> stands for a space; name and
  value are percent-decoded by \<open>unquote\<close>, which is taken as a parameter.\<close>

definition plus_to_space :: "string \<Rightarrow> string" where
  "plus_to_space s = map (\<lambda>c. if c = CHR ''+'' then CHR '' '' else c) s"

definition parse_qsl :: "(string \<Rightarrow> string) \<Rightarrow> string \<Rightarrow> (string \<times> string) list" where
  "parse_qsl unquote qs =
     concat (map (\<lambda>name_value.
                    if name_value = [] then []
                    else if CHR ''='' \<notin> set name_value then []
                    else (let (name, value) = split_first CHR ''='' name_value
                          in if value = [] then []
                             else [(unquote (plus_to_space name), unquote (plus_to_space value))]))
                 (split_on CHR ''&'' qs))"

text \<open>\<open>urllib.parse.parse_qs\<close>: the values of each name, in order, under the name's first
  position.\<close>

fun qs_add :: "(string \<times> string list) list \<Rightarrow> string \<Rightarrow> string \<Rightarrow> (string \<times> string list) list" where
  "qs_add [] name value = [(name, [value])]"
| "qs_add ((n, vs) # r) name value =
     (if n = name then (n, vs @ [value]) # r else (n, vs) # qs_add r name value)"

definition parse_qs :: "(string \<Rightarrow> string) \<Rightarrow> string \<Rightarrow> (string \<times> string list) list" where
  "parse_qs unquote qs = foldl (\<lambda>r (name, value). qs_add r name value) [] (parse_qsl unquote qs)"

text \<open>\<open>d.update(other)\<close> for any decoded JSON value \<open>other\<close>; \<open>None\<close> stands for the
  \<open>TypeError\<close> or \<open>ValueError\<close> Python raises. A list is read as a sequence of
  key/value pairs: each item must be a sequence of length two (a two-element list, a
  two-character string, a dict of two keys) whose first element can be hashed.\<close>

fun hashable :: "pyval \<Rightarrow> bool" where
  "hashable (VList xs) = False"
| "hashable (VDict d) = False"
| "hashable v = True"

fun update_item :: "pyval \<Rightarrow> (pyval \<times> pyval) option" where
  "update_item (VList [k, v]) = (if hashable k then Some (k, v) else None)"
| "update_item (VStr [a, b]) = Some (VStr [a], VStr [b])"
| "update_item (VDict [(k1, v1), (k2, v2)]) = Some (k1, k2)"
| "update_item v = None"

fun update_items :: "(pyval \<times> pyval) list \<Rightarrow> pyval list \<Rightarrow> (pyval \<times> pyval) list option" where
  "update_items d [] = Some d"
| "update_items d (item # items) =
     (case update_item item of
        None \<Rightarrow> None
      | Some (k, v) \<Rightarrow> update_items (dict_set d k v) items)"

fun py_update :: "(pyval \<times> pyval) list \<Rightarrow> pyval \<Rightarrow> (pyval \<times> pyval) list option" where
  "py_update d (VDict other) = Some (dict_update d other)"
| "py_update d (VList items) = update_items d items"
| "py_update d (VStr s) = (if s = [] then Some d else None)"
| "py_update d v = None"

text \<open>\<open>"json" in content_type\<close>.\<close>

fun contains :: "string \<Rightarrow> string \<Rightarrow> bool" where
  "contains [] sub = (sub = [])"
| "contains (c # cs) sub = (startswith (c # cs) sub \<or> contains cs sub)"

text \<open>Lines 918-922: the form decoder.\<close>

definition form_data :: "string \<Rightarrow> (pyval \<times> pyval) list" where
  "form_data body =
     dict_of (concat (map (\<lambda>pair.
                             if CHR ''='' \<in> set pair
                             then (let (key, value) = split_first CHR ''='' pair
                                   in [(VStr key, VStr value)])
                             else [])
                          (split_on CHR ''&'' body)))"

datatype body_outcome =
    Merged "(pyval \<times> pyval) list"
  | InvalidJSON
  | InvalidBodyFormat
  | BodyException

text \<open>
  Lines 911-950, for a body already read and decoded. \<open>json_loads\<close> is the JSON
  decoder, \<open>None\<close> standing for \<open>json.JSONDecodeError\<close>. \<open>InvalidJSON\<close> is the response
  400 "Invalid JSON in request body", \<open>InvalidBodyFormat\<close> the response 400 "Invalid
  request format. Expected JSON"; \<open>BodyException\<close> is an exception that only the
  outermost handler catches (response 500).
\<close>

definition parse_body ::
  "(string \<Rightarrow> pyval option) \<Rightarrow> (pyval \<times> pyval) list \<Rightarrow> string option \<Rightarrow> string \<Rightarrow> body_outcome" where
  "parse_body json_loads request_data content_type_header body =
     (let content_type = lower (case content_type_header of None \<Rightarrow> [] | Some h \<Rightarrow> h)
      in if contains content_type ''json'' \<or> startswith (strip body) ''{''
         then (case json_loads body of
                 None \<Rightarrow> InvalidJSON
               | Some v \<Rightarrow>
                   (case py_update request_data v of
                      None \<Rightarrow> BodyException
                    | Some d \<Rightarrow> Merged d))
         else if contains content_type ''x-www-form-urlencoded''
         then Merged (dict_update request_data (form_data body))
         else if strip body \<noteq> []
         then (case json_loads body of
                 None \<Rightarrow> InvalidBodyFormat
               | Some v \<Rightarrow>
                   (case py_update request_data v of
                      None \<Rightarrow> InvalidBodyFormat
                    | Some d \<Rightarrow> Merged d))
         else Merged request_data)"

section \<open>The orchestrator and the finalizer: \<open>RequestHandler._process_with_llm\<close>\<close>

text \<open>The three backquotes of a fenced block.\<close>

definition fence :: string where
  "fence = [CHR 0x60, CHR 0x60, CHR 0x60]"

text \<open>The text before and after the first fence, if there is one.\<close>

fun find_fence :: "string \<Rightarrow> (string \<times> string) option" where
  "find_fence [] = None"
| "find_fence (c # cs) =
     (if startswith (c # cs) fence then Some ([], drop 3 (c # cs))
      else map_option (\<lambda>(before, after). (c # before, after)) (find_fence cs))"

definition rstrip :: "string \<Rightarrow> string" where
  "rstrip s = rev (dropWhile isspace (rev s))"

text \<open>
  Line 1124: \<open>re.search\<close> for a fence, an optional \<open>json\<close>, whitespace, a lazy group,
  whitespace and a fence, with \<open>re.DOTALL\<close>; the result is \<open>group(1)\<close>. The search
  succeeds exactly when a second fence follows the first one, and then the match starts
  at the first fence: the tag \<open>json\<close> is taken when it is there, then all the whitespace,
  and the lazy group stops as early as it can, which is before the whitespace that
  precedes the next fence.
\<close>

definition fence_search :: "string \<Rightarrow> string option" where
  "fence_search content =
     (case find_fence content of
        None \<Rightarrow> None
      | Some (before, after) \<Rightarrow>
          (let untagged = (if startswith after ''json'' then drop 4 after else after)
           in case find_fence (dropWhile isspace untagged) of
                None \<Rightarrow> None
              | Some (inner, rest) \<Rightarrow> Some (rstrip inner)))"

definition wrap_text :: "string \<Rightarrow> pyval" where
  "wrap_text content = VDict [(VStr ''status'', VStr ''success''), (VStr ''result'', VStr content)]"

text \<open>Lines 1118-1134: the final content of the model becomes the response value.\<close>

definition finalize :: "(string \<Rightarrow> pyval option) \<Rightarrow> string \<Rightarrow> pyval" where
  "finalize json_loads content =
     (case json_loads content of
        Some result \<Rightarrow> result
      | None \<Rightarrow>
          (case fence_search content of
             Some inner \<Rightarrow>
               (case json_loads inner of
                  Some result \<Rightarrow> result
                | None \<Rightarrow> wrap_text content)
           | None \<Rightarrow> wrap_text content))"

record tool_call =
  tc_id :: string
  tc_name :: string
  tc_arguments :: string

text \<open>What one call of \<open>chat.completions.create\<close> gives: an exception, or a message with
  its content (\<open>None\<close> when absent) and its tool calls (\<open>[]\<close> when absent or empty).\<close>

datatype llm_reply = ApiError | Reply "string option" "tool_call list"

datatype msg =
    SystemMsg api
  | UserMsg "(pyval \<times> pyval) list"
  | AssistantMsg "string option" "tool_call list"
  | ToolMsg string gw_result

datatype py_exn = ApiException | TypeError | AttributeError | JSONDecodeError

text \<open>
  Everything outside the program: the JSON decoder (\<open>None\<close> for
  \<open>json.JSONDecodeError\<close>; failures on interpreter limits are outside the model), the
  percent-decoder of \<open>urllib\<close>, the model (its reply to the transcript sent at a given
  turn) and the store's environment.
\<close>

record world =
  json_loads :: "string \<Rightarrow> pyval option"
  unquote :: "string \<Rightarrow> string"
  llm :: "nat \<Rightarrow> msg list \<Rightarrow> llm_reply"
  db :: db_env

text \<open>\<open>function_args.get(key, default)\<close>.\<close>

definition get_default :: "(pyval \<times> pyval) list \<Rightarrow> string \<Rightarrow> pyval \<Rightarrow> pyval" where
  "get_default d key dflt = (case dict_get d (VStr key) of Some v \<Rightarrow> v | None \<Rightarrow> dflt)"

text \<open>Lines 1137-1158: the tool calls of one message, in order. The first component is
  the exception that ended the loop, if any: \<open>json.loads\<close> on the arguments, or \<open>.get\<close> on
  arguments that are not an object.\<close>

fun process_tool_calls ::
  "world \<Rightarrow> msg \<Rightarrow> tool_call list \<Rightarrow> msg list \<Rightarrow> gw_state \<Rightarrow> py_exn option \<times> msg list \<times> gw_state" where
  "process_tool_calls w message [] chat_history s = (None, chat_history, s)"
| "process_tool_calls w message (tc # tcs) chat_history s =
     (if tc_name tc = ''database_query''
      then (case json_loads w (tc_arguments tc) of
              None \<Rightarrow> (Some JSONDecodeError, chat_history, s)
            | Some (VDict function_args) \<Rightarrow>
                (let query = get_default function_args ''query'' (VStr []);
                     params = get_default function_args ''params'' (VList []);
                     read_only = get_default function_args ''read_only'' (VBool True);
                     (db_result, s') = execute_db_query (db w) s query params read_only
                 in process_tool_calls w message tcs
                      (chat_history @ [message, ToolMsg (tc_id tc) db_result]) s')
            | Some other \<Rightarrow> (Some AttributeError, chat_history, s))
      else process_tool_calls w message tcs chat_history s)"

definition limit_error :: pyval where
  "limit_error =
     VDict [(VStr ''status'', VStr ''error''),
            (VStr ''error'', VStr ''Processing limit reached without generating a final response'')]"

text \<open>Lines 1079-1164: the loop \<open>for turn in range(max_turns)\<close>, by the number of turns
  left; \<open>Inl\<close> is an exception that leaves \<open>_process_with_llm\<close>.\<close>

fun llm_turns ::
  "world \<Rightarrow> msg list \<Rightarrow> nat \<Rightarrow> nat \<Rightarrow> msg list \<Rightarrow> gw_state \<Rightarrow> (py_exn + pyval) \<times> gw_state" where
  "llm_turns w messages 0 turn chat_history s = (Inr limit_error, s)"
| "llm_turns w messages (Suc left) turn chat_history s =
     (case llm w turn (messages @ chat_history) of
        ApiError \<Rightarrow> (Inl ApiException, s)
      | Reply content tool_calls \<Rightarrow>
          if tool_calls = []
          then (case content of
                  None \<Rightarrow> (Inl TypeError, s)
                | Some c \<Rightarrow> (Inr (finalize (json_loads w) c), s))
          else (case process_tool_calls w (AssistantMsg content tool_calls) tool_calls chat_history s of
                  (Some e, chat_history', s') \<Rightarrow> (Inl e, s')
                | (None, chat_history', s') \<Rightarrow>
                    llm_turns w messages left (Suc turn) chat_history' s'))"

definition max_turns :: nat where
  "max_turns = 10"

definition process_with_llm ::
  "world \<Rightarrow> api \<Rightarrow> (pyval \<times> pyval) list \<Rightarrow> gw_state \<Rightarrow> (py_exn + pyval) \<times> gw_state" where
  "process_with_llm w a request_data s =
     llm_turns w [SystemMsg a, UserMsg request_data] max_turns 0 [] s"

section \<open>The dispatcher: \<open>RequestHandler.process_request\<close>\<close>

datatype http_body = JsonBody pyval | DocsBody

definition error_body :: "string \<Rightarrow> pyval" where
  "error_body message = VDict [(VStr ''status'', VStr ''error''), (VStr ''error'', VStr message)]"

definition internal_error_body :: pyval where
  "internal_error_body =
     VDict [(VStr ''status'', VStr ''error''), (VStr ''message'', VStr ''Internal server Error'')]"

text \<open>Lines 874-950: the merged request data, for a matched route.\<close>

definition request_data_of ::
  "world \<Rightarrow> (pyval \<times> pyval) list \<Rightarrow> string \<Rightarrow> string \<Rightarrow> string option \<Rightarrow> string \<Rightarrow> body_outcome" where
  "request_data_of w path_params method raw_path content_type body =
     (let request_data0 = (if path_params \<noteq> [] then dict_update [] path_params else []);
          request_data1 =
            (if CHR ''?'' \<in> set raw_path
             then dict_update request_data0
                    (parsed_params (parse_qs (unquote w) (urlparse_query raw_path)))
             else request_data0)
      in if method = ''POST'' \<or> method = ''PUT''
         then parse_body (json_loads w) request_data1 content_type body
         else Merged request_data1)"

text \<open>Lines 961-966: a response that is a string is decoded once more, or wrapped.\<close>

definition response_value :: "(string \<Rightarrow> pyval option) \<Rightarrow> pyval \<Rightarrow> pyval" where
  "response_value loads response =
     (case response of
        VStr text \<Rightarrow> (case loads text of Some v \<Rightarrow> v | None \<Rightarrow> wrap_text text)
      | other \<Rightarrow> other)"

text \<open>
  Lines 818-994, for the method of the handler that was called, the request target
  \<open>self.path\<close>, the \<open>Content-Type\<close> header and the decoded body. The result is the status
  and body sent, and the gateway's state afterwards. (The text of the documentation page
  and the diagnostic fields of the 500 body are left out.)
\<close>

definition process_request ::
  "world \<Rightarrow> api list \<Rightarrow> gw_state \<Rightarrow> string \<Rightarrow> string \<Rightarrow> string option \<Rightarrow> string
     \<Rightarrow> (nat \<times> http_body) \<times> gw_state" where
  "process_request w apis s method raw_path content_type body =
     (let path = path_of raw_path
      in if method = ''GET'' \<and> path = ''/docs'' then ((200, DocsBody), s)
         else (case find_api apis method path of
                 None \<Rightarrow> ((404, JsonBody (error_body ''API endpoint not found'')), s)
               | Some (matching_api, path_params) \<Rightarrow>
                   (case request_data_of w path_params method raw_path content_type body of
                      InvalidJSON \<Rightarrow>
                        ((400, JsonBody (error_body ''Invalid JSON in request body'')), s)
                    | InvalidBodyFormat \<Rightarrow>
                        ((400, JsonBody (error_body ''Invalid request format. Expected JSON'')), s)
                    | BodyException \<Rightarrow> ((500, JsonBody internal_error_body), s)
                    | Merged request_data \<Rightarrow>
                        (case process_with_llm w matching_api request_data s of
                           (Inl e, s') \<Rightarrow> ((500, JsonBody internal_error_body), s')
                         | (Inr response, s') \<Rightarrow>
                             ((200, JsonBody (response_value (json_loads w) response)), s')))))"

section \<open>A JSON decoder and a percent-decoder for worked examples\<close>

text \<open>
  The theorems below hold for every decoder a \<open>world\<close> may carry. The worked examples
  need a concrete one: \<open>json_parse\<close> reads the JSON grammar as \<open>json.loads\<close> does
  (whitespace, literals, numbers, strings with their escapes, arrays, objects whose
  repeated keys keep the last value), over the alphabet of this model. It knows neither
  \<open>NaN\<close> nor \<open>Infinity\<close>, and no \<open>\u\<close> escape above \<open>00ff\<close>.
\<close>

definition json_ws :: "char \<Rightarrow> bool" where
  "json_ws c = (c \<in> set [CHR '' '', CHR 0x09, CHR 0x0A, CHR 0x0D])"

definition skip_ws :: "string \<Rightarrow> string" where
  "skip_ws s = dropWhile json_ws s"

definition hex_val :: "char \<Rightarrow> nat option" where
  "hex_val c =
     (let n = (of_char c :: nat)
      in if 48 \<le> n \<and> n \<le> 57 then Some (n - 48)
         else if 97 \<le> n \<and> n \<le> 102 then Some (n - 87)
         else if 65 \<le> n \<and> n \<le> 70 then Some (n - 55)
         else None)"

definition hex4 :: "char \<Rightarrow> char \<Rightarrow> char \<Rightarrow> char \<Rightarrow> nat option" where
  "hex4 a b c d =
     (case (hex_val a, hex_val b, hex_val c, hex_val d) of
        (Some x, Some y, Some z, Some u) \<Rightarrow> Some (((x * 16 + y) * 16 + z) * 16 + u)
      | other \<Rightarrow> None)"

definition unescape :: "char \<Rightarrow> char option" where
  "unescape e =
     (if e = CHR 0x22 then Some (CHR 0x22)
      else if e = CHR 0x5C then Some (CHR 0x5C)
      else if e = CHR ''/'' then Some (CHR ''/'')
      else if e = CHR ''b'' then Some (CHR 0x08)
      else if e = CHR ''f'' then Some (CHR 0x0C)
      else if e = CHR ''n'' then Some (CHR 0x0A)
      else if e = CHR ''r'' then Some (CHR 0x0D)
      else if e = CHR ''t'' then Some (CHR 0x09)
      else None)"

text \<open>The characters of a string up to its closing quote, and the text after it.\<close>

fun scan_string :: "string \<Rightarrow> string \<Rightarrow> (string \<times> string) option" where
  "scan_string acc [] = None"
| "scan_string acc (c # cs) =
     (if c = CHR 0x22 then Some (rev acc, cs)
      else if c = CHR 0x5C
      then (case cs of
              [] \<Rightarrow> None
            | e # rest \<Rightarrow>
                if e = CHR ''u''
                then (case rest of
                        h1 # h2 # h3 # h4 # rest' \<Rightarrow>
                          (case hex4 h1 h2 h3 h4 of
                             Some n \<Rightarrow> if n < 256 then scan_string (char_of n # acc) rest' else None
                           | None \<Rightarrow> None)
                      | other \<Rightarrow> None)
                else (case unescape e of
                        Some ch \<Rightarrow> scan_string (ch # acc) rest
                      | None \<Rightarrow> None))
      else if (of_char c :: nat) < 32 then None
      else scan_string (c # acc) cs)"

text \<open>A number: an integer part (\<open>0\<close>, or digits that do not begin with \<open>0\<close>) with an
  optional sign, an optional fraction and an optional exponent; an \<open>int\<close> when it has
  neither fraction nor exponent.\<close>

definition scan_number :: "string \<Rightarrow> (pyval \<times> string) option" where
  "scan_number s =
     (let negative = startswith s ''-'';
          s1 = (if negative then tl s else s);
          ds = takeWhile ascii_digit s1
      in if ds = [] then None
         else (let ipart = (if hd ds = CHR ''0'' then ''0'' else ds);
                   r1 = drop (length ipart) s1;
                   fdigits = (case r1 of [] \<Rightarrow> [] | c # cs \<Rightarrow>
                                if c = CHR ''.'' then takeWhile ascii_digit cs else []);
                   r2 = (if fdigits = [] then r1 else drop (Suc (length fdigits)) r1);
                   (has_exp, exp_negative, edigits) =
                     (case r2 of
                        [] \<Rightarrow> (False, False, [])
                      | c # cs \<Rightarrow>
                          if c = CHR ''e'' \<or> c = CHR ''E''
                          then (let signed = (startswith cs ''-'' \<or> startswith cs ''+'');
                                    es = takeWhile ascii_digit (if signed then tl cs else cs)
                                in (es \<noteq> [], startswith cs ''-'', es))
                          else (False, False, []));
                   r3 = (if has_exp
                         then drop (Suc (length edigits) + (if startswith (tl r2) ''-'' \<or> startswith (tl r2) ''+'' then 1 else 0)) r2
                         else r2);
                   sign = (if negative then - 1 else 1)
               in if fdigits = [] \<and> \<not> has_exp
                  then Some (VInt (sign * int (digits_value ipart)), r3)
                  else (let mantissa = (of_nat (digits_value (ipart @ fdigits)) :: rat)
                                         / of_nat (10 ^ length fdigits);
                            scale = (of_nat (10 ^ digits_value edigits) :: rat)
                        in Some (VFloat (of_int sign *
                                   (if exp_negative then mantissa / scale else mantissa * scale)),
                                 r3))))"

text \<open>The recursive descent; the first argument bounds the calls still allowed, and
  \<open>json_parse\<close> starts it above the length of the text.\<close>

fun parse_value :: "nat \<Rightarrow> string \<Rightarrow> (pyval \<times> string) option"
  and parse_array :: "nat \<Rightarrow> pyval list \<Rightarrow> string \<Rightarrow> (pyval \<times> string) option"
  and parse_object :: "nat \<Rightarrow> (pyval \<times> pyval) list \<Rightarrow> string \<Rightarrow> (pyval \<times> string) option" where
  "parse_value 0 s = None"
| "parse_value (Suc n) s =
     (case s of
        [] \<Rightarrow> None
      | c # cs \<Rightarrow>
          if c = CHR 0x22
          then (case scan_string [] cs of None \<Rightarrow> None | Some (str, r) \<Rightarrow> Some (VStr str, r))
          else if c = CHR ''{''
          then (let r = skip_ws cs
                in if startswith r ''}'' then Some (VDict [], tl r) else parse_object n [] r)
          else if c = CHR ''[''
          then (let r = skip_ws cs
                in if startswith r '']'' then Some (VList [], tl r) else parse_array n [] r)
          else if startswith s ''null'' then Some (VNone, drop 4 s)
          else if startswith s ''true'' then Some (VBool True, drop 4 s)
          else if startswith s ''false'' then Some (VBool False, drop 5 s)
          else scan_number s)"
| "parse_array 0 acc s = None"
| "parse_array (Suc n) acc s =
     (case parse_value n s of
        None \<Rightarrow> None
      | Some (v, r) \<Rightarrow>
          (case skip_ws r of
             [] \<Rightarrow> None
           | c # cs \<Rightarrow>
               if c = CHR '']'' then Some (VList (acc @ [v]), cs)
               else if c = CHR '','' then parse_array n (acc @ [v]) (skip_ws cs)
               else None))"
| "parse_object 0 acc s = None"
| "parse_object (Suc n) acc s =
     (case s of
        [] \<Rightarrow> None
      | c # cs \<Rightarrow>
          if c \<noteq> CHR 0x22 then None
          else (case scan_string [] cs of
                  None \<Rightarrow> None
                | Some (key, r) \<Rightarrow>
                    (case skip_ws r of
                       [] \<Rightarrow> None
                     | c1 # r1 \<Rightarrow>
                         if c1 \<noteq> CHR '':'' then None
                         else (case parse_value n (skip_ws r1) of
                                 None \<Rightarrow> None
                               | Some (v, r2) \<Rightarrow>
                                   (case skip_ws r2 of
                                      [] \<Rightarrow> None
                                    | c2 # r3 \<Rightarrow>
                                        if c2 = CHR ''}''
                                        then Some (VDict (dict_set acc (VStr key) v), r3)
                                        else if c2 = CHR '',''
                                        then parse_object n (dict_set acc (VStr key) v) (skip_ws r3)
                                        else None)))))"

definition json_parse :: "string \<Rightarrow> pyval option" where
  "json_parse s =
     (case parse_value (Suc (length s)) (skip_ws s) of
        None \<Rightarrow> None
      | Some (v, r) \<Rightarrow> if skip_ws r = [] then Some v else None)"

text \<open>\<open>urllib.parse.unquote\<close> on escapes of ASCII characters; an escape of a byte from
  128 on is part of a UTF-8 sequence that may leave the alphabet, and stays as it is.\<close>

fun unquote_ascii :: "string \<Rightarrow> string" where
  "unquote_ascii [] = []"
| "unquote_ascii (c # cs) =
     (if c = CHR ''%''
      then (case cs of
              a # b # rest \<Rightarrow>
                (case (hex_val a, hex_val b) of
                   (Some x, Some y) \<Rightarrow>
                     if 16 * x + y < 128 then char_of (16 * x + y) # unquote_ascii rest
                     else c # unquote_ascii cs
                 | other \<Rightarrow> c # unquote_ascii cs)
            | other \<Rightarrow> c # unquote_ascii cs)
      else c # unquote_ascii cs)"

text \<open>A JSON string literal for a text without special characters.\<close>

definition quoted :: "string \<Rightarrow> string" where
  "quoted s = CHR 0x22 # s @ [CHR 0x22]"

section \<open>The matcher in the spec's words, and a small registry\<close>

text \<open>The segments of a pattern; a literal segment accepts exactly itself, a placeholder
  any segment that is not empty; the segments of a path that stand at the placeholders.\<close>

definition pattern_segments :: "string \<Rightarrow> segment list" where
  "pattern_segments pattern_path = map compile_part (split_on CHR ''/'' (strip_slashes pattern_path))"

fun seg_accepts :: "segment \<Rightarrow> string \<Rightarrow> bool" where
  "seg_accepts (Literal l) s = (s = l)"
| "seg_accepts (Placeholder n) s = (s \<noteq> [])"

fun placeholder_values :: "segment list \<Rightarrow> string list \<Rightarrow> string list" where
  "placeholder_values (Literal l # segs) (x # xs) = placeholder_values segs xs"
| "placeholder_values (Placeholder n # segs) (x # xs) = x # placeholder_values segs xs"
| "placeholder_values segs xs = []"

definition endpoint_matches :: "api \<Rightarrow> string \<Rightarrow> string \<Rightarrow> bool" where
  "endpoint_matches a method path =
     (api_method a = method \<and>
      (case path of
         [] \<Rightarrow> False
       | c # rest \<Rightarrow> c = CHR ''/'' \<and>
           list_all2 seg_accepts (pattern_segments (api_path a)) (split_on CHR ''/'' rest)))"


definition demo_apis :: "api list" where
  "demo_apis =
     [\<lparr>api_name = ''item'', api_method = ''GET'', api_path = ''/items/{id}'',
       api_description = ''One item'', api_implementation = ''Select the item by id''\<rparr>,
      \<lparr>api_name = ''answer'', api_method = ''GET'', api_path = ''/items/42'',
       api_description = ''The answer'', api_implementation = ''Return 42''\<rparr>,
      \<lparr>api_name = ''set_item'', api_method = ''POST'', api_path = ''/items/{id}'',
       api_description = ''Update one item'', api_implementation = ''Update the item by id''\<rparr>]"

text \<open>The second source of the merged input: the coerced query parameters, or nothing
  when the request target has no question mark.\<close>

definition query_params_of :: "world \<Rightarrow> string \<Rightarrow> (pyval \<times> pyval) list" where
  "query_params_of w raw_path =
     (if CHR ''?'' \<in> set raw_path
      then parsed_params (parse_qs (unquote w) (urlparse_query raw_path)) else [])"

section \<open>Data for the worked examples\<close>

text \<open>A world with the decoders above, a given model and a given store environment.\<close>

definition demo_world :: "(nat \<Rightarrow> msg list \<Rightarrow> llm_reply) \<Rightarrow> db_env \<Rightarrow> world" where
  "demo_world model env =
     \<lparr>json_loads = json_parse, unquote = unquote_ascii, llm = model, db = env\<rparr>"



text \<open>Models for the examples: one that asks for the same query at every turn, one
  whose tool call carries arguments that are not JSON, and one that asks for a query
  once and then answers with a given content.\<close>

definition query_call :: "string \<Rightarrow> tool_call" where
  "query_call arguments =
     \<lparr>tc_id = ''call_1'', tc_name = ''database_query'', tc_arguments = arguments\<rparr>"

definition select_arguments :: string where
  "select_arguments = ''{'' @ quoted ''query'' @ '': '' @ quoted ''SELECT 1'' @ ''}''"



definition one_query_model :: "string \<Rightarrow> nat \<Rightarrow> msg list \<Rightarrow> llm_reply" where
  "one_query_model content turn transcript =
     (if turn = 0 then Reply None [query_call select_arguments] else Reply (Some content) [])"

text \<open>An environment whose password variable is not set.\<close>

definition no_password_env :: db_env where
  "no_password_env = demo_env\<lparr>env_password := []\<rparr>"

section \<open>Properties of the query gateway\<close>

lemma run_statement_state:
  "run_statement env s q params is_mod = (r, s') \<Longrightarrow>
     stdin s' = stdin s \<and> data_modification_permission s' = data_modification_permission s
     \<and> (trace s' = trace s @ [Execute q (or_empty params)] \<or>
        (is_mod \<and> trace s' = trace s @ [Execute q (or_empty params), Committed]))"
  by (auto simp: run_statement_def Let_def split: exec_outcome.splits option.splits if_splits)

lemma gate_approved:
  "data_modification_permission s \<or> \<not> is_modification ro q \<Longrightarrow>
   permission_gate env s q params ro = run_statement env s q params (is_modification ro q)"
  by (auto simp: permission_gate_def Let_def)

lemma ready_call:
  "env_ready env \<Longrightarrow> execute_db_query env s (VStr q) params ro = permission_gate env s q params (truthy ro)"
  by (simp add: env_ready_def execute_db_query_def)

lemma not_ready_call:
  "\<not> env_ready env \<Longrightarrow> snd (execute_db_query env s query params ro) = s"
  by (auto simp: env_ready_def execute_db_query_def)

lemma run_statement_events:
  "run_statement env s q params is_mod = (r, s') \<Longrightarrow>
     new_events s s' = [Execute q (or_empty params)] \<or>
     (is_mod \<and> new_events s s' = [Execute q (or_empty params), Committed])"
  by (drule run_statement_state) (auto simp: new_events_def)

lemma execute_keeps_permission:
  "data_modification_permission s \<Longrightarrow> execute_db_query env s query params ro = (r, s') \<Longrightarrow>
     data_modification_permission s' \<and> stdin s' = stdin s \<and> (\<exists>evs. trace s' = trace s @ evs \<and> (\<forall>e\<in>set evs. \<forall>a b. e \<noteq> Prompted a b))"
  apply (auto simp: execute_db_query_def gate_approved split: if_splits pyval.splits dest!: run_statement_state)
  done

lemma serve_calls_keeps:
  "data_modification_permission s \<Longrightarrow>
     data_modification_permission (serve_calls s calls) \<and> stdin (serve_calls s calls) = stdin s
     \<and> (\<exists>evs. trace (serve_calls s calls) = trace s @ evs \<and> (\<forall>e\<in>set evs. \<forall>a b. e \<noteq> Prompted a b))"
proof (induction calls arbitrary: s)
  case Nil
  then show ?case by simp
next
  case (Cons c calls)
  obtain env query params ro where c: "c = (env, query, params, ro)" by (cases c) auto
  obtain r s1 where e: "execute_db_query env s query params ro = (r, s1)" by (cases "execute_db_query env s query params ro") auto
  from execute_keeps_permission[OF Cons.prems e] obtain evs where
    k: "data_modification_permission s1" "stdin s1 = stdin s" "trace s1 = trace s @ evs" "\<forall>e\<in>set evs. \<forall>a b. e \<noteq> Prompted a b" by blast
  from Cons.IH[OF k(1)] obtain evs' where
    k': "data_modification_permission (serve_calls s1 calls)" "stdin (serve_calls s1 calls) = stdin s1"
       "trace (serve_calls s1 calls) = trace s1 @ evs'" "\<forall>e\<in>set evs'. \<forall>a b. e \<noteq> Prompted a b" by blast
  show ?case using k k' c e by (auto intro!: exI[of _ "evs @ evs'"])
qed

lemma deny:
  assumes "env_ready env" "is_modification False q" "\<not> data_modification_permission s"
     "stdin s = resp # rest" "lower resp \<noteq> ''all''" "lower resp \<noteq> ''y''"
  shows "execute_db_query env s (VStr q) params (VBool False) =
     (Error ''Operation not authorized by user'', s\<lparr>trace := trace s @ [Prompted q params], stdin := rest\<rparr>)"
  using assms by (simp add: ready_call permission_gate_def Let_def)

lemma allow_all:
  assumes "env_ready env" "is_modification False q" "\<not> data_modification_permission s"
     "stdin s = resp # rest" "lower resp = ''all''" 
  shows "execute_db_query env s (VStr q) params (VBool False) =
     run_statement env (s\<lparr>trace := trace s @ [Prompted q params], stdin := rest, data_modification_permission := True\<rparr>) q params True"
  using assms by (simp add: ready_call permission_gate_def Let_def)

lemma sw_takeWhile:
  "\<forall>c\<in>set p. P c \<Longrightarrow> (take (length p) (takeWhile P s) = p) = (take (length p) s = p)"
proof (induction p arbitrary: s)
  case Nil
  then show ?case by simp
next
  case (Cons a p)
  then show ?case by (cases s) auto
qed

lemma ops_nospace: "op \<in> set modification_ops \<Longrightarrow> \<forall>c\<in>set op. \<not> isspace c"
  by (auto simp: modification_ops_def isspace_def)

lemma is_modification_iff_prefix:
  "is_modification read_only query \<longleftrightarrow>
      \<not> read_only \<and> (\<exists>op\<in>set modification_ops. startswith (leading_keyword query) op)"
  unfolding is_modification_def leading_keyword_def startswith_def Let_def list_ex_iff
  using sw_takeWhile[OF ops_nospace] by auto

lemma keyword_is_modification:
  "leading_keyword q \<in> set modification_ops \<Longrightarrow> is_modification False q"
  unfolding is_modification_iff_prefix
  by (simp, rule bexI[of _ "leading_keyword q"]) (simp_all add: startswith_def)

text \<open>
  C3 (as the code has it). The gateway classifies a statement as modifying exactly when
  \<open>read_only\<close> is false and the statement text, in lower case and trimmed, begins with
  one of insert, update, delete, drop, create, alter. The test is a prefix test on the
  text: the leading word only has to begin with one of the six, so a leading word equal
  to one of them (and \<open>read_only\<close> false) is modifying, and a statement beginning with
  select is read-only whatever the flag.
\<close>

theorem classification_by_prefix:
  "(is_modification read_only query \<longleftrightarrow>
      \<not> read_only \<and> (\<exists>op\<in>set modification_ops. startswith (leading_keyword query) op))
   \<and> (\<not> read_only \<and> leading_keyword query \<in> set modification_ops \<longrightarrow> is_modification read_only query)
   \<and> (startswith (leading_keyword query) ''select'' \<longrightarrow> \<not> is_modification read_only query)"
proof -
  note iff = is_modification_iff_prefix[of read_only query]
  have exact: "leading_keyword query \<in> set modification_ops \<Longrightarrow>
      \<exists>op\<in>set modification_ops. startswith (leading_keyword query) op"
    by (rule bexI[of _ "leading_keyword query"]) (simp_all add: startswith_def)
  have sel: "startswith (leading_keyword query) ''select'' \<Longrightarrow>
      \<not> (\<exists>op\<in>set modification_ops. startswith (leading_keyword query) op)"
    by (cases "leading_keyword query") (auto simp: startswith_def modification_ops_def)
  from iff exact sel show ?thesis by blast
qed

theorem classification_by_prefix_witness:
  "is_modification False ''  Drop TABLE users '' \<and> leading_keyword ''  Drop TABLE users '' = ''drop''
   \<and> \<not> is_modification True ''  Drop TABLE users ''
   \<and> startswith (leading_keyword ''SELECT 1'') ''select'' \<and> \<not> is_modification False ''SELECT 1''"
proof -
  have k: "leading_keyword ''  Drop TABLE users '' = ''drop''" by code_simp
  have m: "''drop'' \<in> set modification_ops" by (simp add: modification_ops_def)
  have s: "startswith (leading_keyword ''SELECT 1'') ''select''" by code_simp
  from classification_by_prefix[of False "''  Drop TABLE users ''"]
  have "\<not> False \<and> leading_keyword ''  Drop TABLE users '' \<in> set modification_ops
          \<longrightarrow> is_modification False ''  Drop TABLE users ''" by blast
  with k m have 1: "is_modification False ''  Drop TABLE users ''" by simp
  from classification_by_prefix[of True "''  Drop TABLE users ''"]
  have 2: "\<not> is_modification True ''  Drop TABLE users ''" by simp
  from classification_by_prefix[of False "''SELECT 1''"] s
  have 3: "\<not> is_modification False ''SELECT 1''" by blast
  from 1 2 3 k s show ?thesis by simp
qed

text \<open>
  C3 as stated asks for the leading keyword to be one of the six words. The statement
  \<open>dropdown_choices\<close> has a leading word that is none of them and is classified
  modifying all the same.
\<close>

theorem keyword_classification_counterexample:
  "is_modification False ''dropdown_choices'' \<and> leading_keyword ''dropdown_choices'' = ''dropdown_choices''
   \<and> ''dropdown_choices'' \<notin> set modification_ops"
  by code_simp

text \<open>
  C1 (as the code has it). A call with \<open>read_only\<close> true never reaches the permission
  gate, whatever the statement: no prompt is issued, no terminal input is consumed, the
  session flag is unchanged and nothing is committed; once the connection guards pass the
  statement is handed to \<open>cursor.execute\<close>. With \<open>read_only\<close> false and no session
  permission, a statement whose leading keyword is one of the six reaches
  \<open>cursor.execute\<close> only after a prompt that the operator answered with y or all.
\<close>

theorem declared_read_only_skips_gate:
  assumes t: "execute_db_query env s (VStr q) params (VBool True) = (r, s')"
      and f: "execute_db_query env s (VStr q) params (VBool False) = (r2, s2)"
  shows "stdin s' = stdin s \<and> data_modification_permission s' = data_modification_permission s
       \<and> (new_events s s' = [] \<or> new_events s s' = [Execute q (or_empty params)])
       \<and> (env_ready env \<longrightarrow> new_events s s' = [Execute q (or_empty params)])
       \<and> (leading_keyword q \<in> set modification_ops \<and> \<not> data_modification_permission s
            \<and> Execute q (or_empty params) \<in> set (new_events s s2)
           \<longrightarrow> (\<exists>resp. stdin s = resp # stdin s2 \<and> (lower resp = ''y'' \<or> lower resp = ''all'')
                  \<and> take 2 (new_events s s2) = [Prompted q params, Execute q (or_empty params)]))"
proof -
  have A: "stdin s' = stdin s \<and> data_modification_permission s' = data_modification_permission s
       \<and> (new_events s s' = [] \<or> new_events s s' = [Execute q (or_empty params)])
       \<and> (env_ready env \<longrightarrow> new_events s s' = [Execute q (or_empty params)])"
  proof (cases "env_ready env")
    case True
    with t have "run_statement env s q params False = (r, s')"
      by (simp add: ready_call gate_approved is_modification_def)
    from run_statement_state[OF this] run_statement_events[OF this] show ?thesis by simp
  next
    case False
    from not_ready_call[OF False, of s "VStr q" params "VBool True"] t have "s' = s" by simp
    with False show ?thesis by (simp add: new_events_def)
  qed
  have B: "\<exists>resp. stdin s = resp # stdin s2 \<and> (lower resp = ''y'' \<or> lower resp = ''all'')
                  \<and> take 2 (new_events s s2) = [Prompted q params, Execute q (or_empty params)]"
    if kw: "leading_keyword q \<in> set modification_ops" and np: "\<not> data_modification_permission s"
      and ex: "Execute q (or_empty params) \<in> set (new_events s s2)"
  proof (cases "env_ready env")
    case False
    from not_ready_call[OF False, of s "VStr q" params "VBool False"] f have "s2 = s" by simp
    with ex show ?thesis by (simp add: new_events_def)
  next
    case True
    note m = keyword_is_modification[OF kw]
    from True f have g: "permission_gate env s q params False = (r2, s2)" by (simp add: ready_call)
    show ?thesis
    proof (cases "stdin s")
      case Nil
      with g m np ex show ?thesis by (auto simp: permission_gate_def Let_def new_events_def)
    next
      case (Cons resp rest)
      show ?thesis
      proof (cases "lower resp = ''all''")
        case True
        with g m np Cons have "run_statement env
           (s\<lparr>trace := trace s @ [Prompted q params], stdin := rest, data_modification_permission := True\<rparr>)
           q params True = (r2, s2)" by (simp add: permission_gate_def Let_def)
        from run_statement_state[OF this] True Cons show ?thesis by (auto simp: new_events_def)
      next
        case notall: False
        show ?thesis
        proof (cases "lower resp = ''y''")
          case True
          with g m np Cons notall have "run_statement env
             (s\<lparr>trace := trace s @ [Prompted q params], stdin := rest\<rparr>)
             q params True = (r2, s2)" by (simp add: permission_gate_def Let_def)
          from run_statement_state[OF this] True Cons show ?thesis by (auto simp: new_events_def)
        next
          case False
          with g m np Cons notall ex show ?thesis by (auto simp: permission_gate_def Let_def new_events_def)
        qed
      qed
    qed
  qed
  from A B show ?thesis by blast
qed

theorem declared_read_only_skips_gate_witness:
  "execute_db_query demo_env (fresh [''Y'']) (VStr ''drop table t'') VNone (VBool True)
      = (Success None 0, (fresh [''Y''])\<lparr>trace := [Execute ''drop table t'' (VList [])]\<rparr>)
   \<and> execute_db_query demo_env (fresh [''Y'']) (VStr ''drop table t'') VNone (VBool False)
      = (Success None 0, (fresh [])\<lparr>trace := [Prompted ''drop table t'' VNone,
            Execute ''drop table t'' (VList []), Committed]\<rparr>)
   \<and> env_ready demo_env \<and> leading_keyword ''drop table t'' \<in> set modification_ops
   \<and> new_events (fresh [''Y'']) ((fresh [''Y''])\<lparr>trace := [Execute ''drop table t'' (VList [])]\<rparr>)
        = [Execute ''drop table t'' (or_empty VNone)]
   \<and> (\<exists>resp. stdin (fresh [''Y'']) = resp # stdin ((fresh [])\<lparr>trace := [Prompted ''drop table t'' VNone,
            Execute ''drop table t'' (VList []), Committed]\<rparr>) \<and> (lower resp = ''y'' \<or> lower resp = ''all''))"
proof -
  have t: "execute_db_query demo_env (fresh [''Y'']) (VStr ''drop table t'') VNone (VBool True)
      = (Success None 0, (fresh [''Y''])\<lparr>trace := [Execute ''drop table t'' (VList [])]\<rparr>)"
    by code_simp
  have f: "execute_db_query demo_env (fresh [''Y'']) (VStr ''drop table t'') VNone (VBool False)
      = (Success None 0, (fresh [])\<lparr>trace := [Prompted ''drop table t'' VNone,
            Execute ''drop table t'' (VList []), Committed]\<rparr>)"
    by code_simp
  have r: "env_ready demo_env" by (simp add: env_ready_def demo_env_def)
  have k: "leading_keyword ''drop table t'' \<in> set modification_ops" by code_simp
  have e: "Execute ''drop table t'' (or_empty VNone) \<in> set (new_events (fresh [''Y''])
       ((fresh [])\<lparr>trace := [Prompted ''drop table t'' VNone,
            Execute ''drop table t'' (VList []), Committed]\<rparr>))"
    by (simp add: new_events_def fresh_def or_empty_def)
  have np: "\<not> data_modification_permission (fresh [''Y''])" by (simp add: fresh_def)
  note th = declared_read_only_skips_gate[OF t f]
  from th r have n: "new_events (fresh [''Y'']) ((fresh [''Y''])\<lparr>trace := [Execute ''drop table t'' (VList [])]\<rparr>)
        = [Execute ''drop table t'' (or_empty VNone)]" by blast
  from th k np e have x: "\<exists>resp. stdin (fresh [''Y'']) = resp # stdin ((fresh [])\<lparr>trace := [Prompted ''drop table t'' VNone,
            Execute ''drop table t'' (VList []), Committed]\<rparr>)
        \<and> (lower resp = ''y'' \<or> lower resp = ''all'')" by blast
  from t f r k n x show ?thesis by (intro conjI)
qed

text \<open>
  C1 as stated fails: with nobody at the terminal and no session permission,
  \<open>DROP TABLE users\<close> declared read-only is handed to the store without any prompt,
  while the same statement declared modifying is stopped by the gate.
\<close>

theorem declared_read_only_counterexample:
  "leading_keyword ''DROP TABLE users'' \<in> set modification_ops
   \<and> execute_db_query demo_env (fresh []) (VStr ''DROP TABLE users'') (VList []) (VBool True)
       = (Success None 0, \<lparr>data_modification_permission = False, stdin = [],
                           trace = [Execute ''DROP TABLE users'' (VList [])]\<rparr>)
   \<and> execute_db_query demo_env (fresh [''n'']) (VStr ''DROP TABLE users'') (VList []) (VBool False)
       = (Error ''Operation not authorized by user'',
          \<lparr>data_modification_permission = False, stdin = [],
           trace = [Prompted ''DROP TABLE users'' (VList [])]\<rparr>)"
  by code_simp

text \<open>
  C2. For a statement classified modifying, once the connection guards pass: without
  session permission the operator is prompted first; any answer other than y or all
  (in any letter case) returns \<open>Operation not authorized by user\<close> and adds nothing but
  the prompt to the trace (no execute, no commit); the answer all sets the session flag
  and the statement is executed right after the prompt. Once the flag is set, it stays
  set through any sequence of later gateway calls, none of them prompts or reads the
  terminal, and a later modifying statement goes straight to \<open>cursor.execute\<close>.
\<close>

theorem gate_deny_and_remember:
  assumes ready: "env_ready env" and m: "is_modification False q"
  shows "(\<not> data_modification_permission s \<and> stdin s = resp # rest
            \<and> lower resp \<noteq> ''all'' \<and> lower resp \<noteq> ''y'' \<longrightarrow>
          execute_db_query env s (VStr q) params (VBool False) =
            (Error ''Operation not authorized by user'',
             s\<lparr>trace := trace s @ [Prompted q params], stdin := rest\<rparr>))
       \<and> (\<not> data_modification_permission s \<and> stdin s = resp # rest \<and> lower resp = ''all'' \<longrightarrow>
          (let s' = snd (execute_db_query env s (VStr q) params (VBool False))
           in data_modification_permission s' \<and> stdin s' = rest
              \<and> take 2 (new_events s s') = [Prompted q params, Execute q (or_empty params)]))
       \<and> (data_modification_permission s \<longrightarrow>
          (let s1 = serve_calls s calls;
               s' = snd (execute_db_query env s1 (VStr q) params (VBool False))
           in data_modification_permission s1 \<and> data_modification_permission s'
              \<and> stdin s' = stdin s \<and> (\<forall>a b. Prompted a b \<notin> set (new_events s s'))
              \<and> take 1 (new_events s1 s') = [Execute q (or_empty params)]))"
proof (intro conjI impI)
  assume "\<not> data_modification_permission s \<and> stdin s = resp # rest
            \<and> lower resp \<noteq> ''all'' \<and> lower resp \<noteq> ''y''"
  with ready m show "execute_db_query env s (VStr q) params (VBool False) =
            (Error ''Operation not authorized by user'',
             s\<lparr>trace := trace s @ [Prompted q params], stdin := rest\<rparr>)"
    by (simp add: deny)
next
  assume a: "\<not> data_modification_permission s \<and> stdin s = resp # rest \<and> lower resp = ''all''"
  obtain r s' where e: "execute_db_query env s (VStr q) params (VBool False) = (r, s')"
    by (cases "execute_db_query env s (VStr q) params (VBool False)") auto
  with allow_all[OF ready m, of s resp rest params] a
  have "run_statement env (s\<lparr>trace := trace s @ [Prompted q params], stdin := rest,
          data_modification_permission := True\<rparr>) q params True = (r, s')" by simp
  from run_statement_state[OF this]
  have "data_modification_permission s' \<and> stdin s' = rest
              \<and> take 2 (new_events s s') = [Prompted q params, Execute q (or_empty params)]"
    by (auto simp: new_events_def)
  with e show "let s' = snd (execute_db_query env s (VStr q) params (VBool False))
           in data_modification_permission s' \<and> stdin s' = rest
              \<and> take 2 (new_events s s') = [Prompted q params, Execute q (or_empty params)]"
    by simp
next
  assume p: "data_modification_permission s"
  define s1 where "s1 = serve_calls s calls"
  obtain r s' where e: "execute_db_query env s1 (VStr q) params (VBool False) = (r, s')"
    by (cases "execute_db_query env s1 (VStr q) params (VBool False)") auto
  from serve_calls_keeps[OF p, of calls] obtain evs where
    k: "data_modification_permission s1" "stdin s1 = stdin s" "trace s1 = trace s @ evs"
       "\<forall>e\<in>set evs. \<forall>a b. e \<noteq> Prompted a b" unfolding s1_def by blast
  from e ready k(1) have rs: "run_statement env s1 q params (is_modification False q) = (r, s')"
    by (simp add: ready_call gate_approved)
  from run_statement_state[OF rs] k
  have "data_modification_permission s' \<and> stdin s' = stdin s
        \<and> (\<forall>a b. Prompted a b \<notin> set (new_events s s'))
        \<and> take 1 (new_events s1 s') = [Execute q (or_empty params)]"
    by (fastforce simp: new_events_def)
  with e k(1) show "let s1 = serve_calls s calls;
               s' = snd (execute_db_query env s1 (VStr q) params (VBool False))
           in data_modification_permission s1 \<and> data_modification_permission s'
              \<and> stdin s' = stdin s \<and> (\<forall>a b. Prompted a b \<notin> set (new_events s s'))
              \<and> take 1 (new_events s1 s') = [Execute q (or_empty params)]"
    by (simp add: s1_def)
qed

theorem gate_deny_and_remember_witness:
  "env_ready demo_env \<and> is_modification False ''DELETE FROM t''
   \<and> execute_db_query demo_env (fresh [''no'', ''y'']) (VStr ''DELETE FROM t'') VNone (VBool False) =
        (Error ''Operation not authorized by user'',
         (fresh [''no'', ''y''])\<lparr>trace := trace (fresh [''no'', ''y'']) @ [Prompted ''DELETE FROM t'' VNone],
                               stdin := [''y'']\<rparr>)
   \<and> (let s' = snd (execute_db_query demo_env (fresh [''All'', ''y'']) (VStr ''DELETE FROM t'') VNone (VBool False))
      in data_modification_permission s' \<and> stdin s' = [''y'']
         \<and> take 2 (new_events (fresh [''All'', ''y'']) s')
             = [Prompted ''DELETE FROM t'' VNone, Execute ''DELETE FROM t'' (or_empty VNone)])
   \<and> (let s1 = serve_calls ((fresh [''n''])\<lparr>data_modification_permission := True\<rparr>)
                  [(demo_env, VStr ''drop table a'', VNone, VBool False)];
          s' = snd (execute_db_query demo_env s1 (VStr ''DELETE FROM t'') VNone (VBool False))
      in data_modification_permission s1 \<and> data_modification_permission s'
         \<and> stdin s' = stdin ((fresh [''n''])\<lparr>data_modification_permission := True\<rparr>)
         \<and> take 1 (new_events s1 s') = [Execute ''DELETE FROM t'' (or_empty VNone)])"
proof -
  have r: "env_ready demo_env" by (simp add: env_ready_def demo_env_def)
  have m: "is_modification False ''DELETE FROM t''" by code_simp
  have l1: "lower ''no'' \<noteq> ''all'' \<and> lower ''no'' \<noteq> ''y''" by code_simp
  have l2: "lower ''All'' = ''all''" by code_simp
  have d: "\<not> data_modification_permission (fresh [''no'', ''y'']) \<and> stdin (fresh [''no'', ''y'']) = ''no'' # [''y'']"
    by (simp add: fresh_def)
  have a: "\<not> data_modification_permission (fresh [''All'', ''y'']) \<and> stdin (fresh [''All'', ''y'']) = ''All'' # [''y'']"
    by (simp add: fresh_def)
  have p: "data_modification_permission ((fresh [''n''])\<lparr>data_modification_permission := True\<rparr>)"
    by simp
  from gate_deny_and_remember[OF r m, of "fresh [''no'', ''y'']" "''no''" "[''y'']"] d l1
  have 1: "execute_db_query demo_env (fresh [''no'', ''y'']) (VStr ''DELETE FROM t'') VNone (VBool False) =
        (Error ''Operation not authorized by user'',
         (fresh [''no'', ''y''])\<lparr>trace := trace (fresh [''no'', ''y'']) @ [Prompted ''DELETE FROM t'' VNone],
                               stdin := [''y'']\<rparr>)" by blast
  from gate_deny_and_remember[OF r m, of "fresh [''All'', ''y'']" "''All''" "[''y'']" VNone] a l2
  have 2: "let s' = snd (execute_db_query demo_env (fresh [''All'', ''y'']) (VStr ''DELETE FROM t'') VNone (VBool False))
      in data_modification_permission s' \<and> stdin s' = [''y'']
         \<and> take 2 (new_events (fresh [''All'', ''y'']) s')
             = [Prompted ''DELETE FROM t'' VNone, Execute ''DELETE FROM t'' (or_empty VNone)]" by blast
  from gate_deny_and_remember[OF r m, of "(fresh [''n''])\<lparr>data_modification_permission := True\<rparr>" _ _ VNone
        "[(demo_env, VStr ''drop table a'', VNone, VBool False)]"] p
  have 3: "let s1 = serve_calls ((fresh [''n''])\<lparr>data_modification_permission := True\<rparr>)
                  [(demo_env, VStr ''drop table a'', VNone, VBool False)];
          s' = snd (execute_db_query demo_env s1 (VStr ''DELETE FROM t'') VNone (VBool False))
      in data_modification_permission s1 \<and> data_modification_permission s'
         \<and> stdin s' = stdin ((fresh [''n''])\<lparr>data_modification_permission := True\<rparr>)
         \<and> take 1 (new_events s1 s') = [Execute ''DELETE FROM t'' (or_empty VNone)]"
    by (simp add: Let_def)
  from r m 1 2 3 show ?thesis by (intro conjI)
qed

section \<open>Properties of the route matcher\<close>

lemma split_on_nonempty: "split_on sep s \<noteq> []"
  by (induction s) (auto split: list.splits)

lemma split_on_unfold:
  "split_on sep s = takeWhile (\<lambda>c. c \<noteq> sep) s #
     (case dropWhile (\<lambda>c. c \<noteq> sep) s of [] \<Rightarrow> [] | c # r \<Rightarrow> split_on sep r)"
proof (induction s)
  case Nil
  then show ?case by simp
next
  case (Cons a s)
  then show ?case by (cases "split_on sep s") (auto simp: split_on_nonempty)
qed

lemma split_on_no_sep: "p \<in> set (split_on sep s) \<Longrightarrow> sep \<notin> set p"
proof (induction s arbitrary: p)
  case Nil
  then show ?case by simp
next
  case (Cons a s)
  then show ?case by (cases "split_on sep s") (auto split: if_splits)
qed

lemma literal_prefix:
  assumes "sep \<notin> set l"
  shows "(take (length l) cs = l \<and> (drop (length l) cs = [] \<or> (\<exists>r. drop (length l) cs = sep # r)))
         \<longleftrightarrow> takeWhile (\<lambda>c. c \<noteq> sep) cs = l"
  using assms
proof (induction l arbitrary: cs)
  case Nil
  then show ?case by (cases cs) auto
next
  case (Cons a l)
  then show ?case by (cases cs) auto
qed

lemma literal_rest:
  "takeWhile (\<lambda>c. c \<noteq> sep) cs = l \<Longrightarrow> dropWhile (\<lambda>c. c \<noteq> sep) cs = drop (length l) cs"
  by (metis dropWhile_eq_drop)

lemma dropWhile_head: "dropWhile (\<lambda>c. c \<noteq> sep) cs = c # r \<Longrightarrow> c = sep"
  using hd_dropWhile[of "\<lambda>c. c \<noteq> sep" cs] by auto


lemma tail_step:
  assumes IH: "regex_match segs y = Some gs' \<longleftrightarrow>
           (segs = [] \<and> y = [] \<and> gs' = []) \<or>
           (\<exists>rest. y = CHR ''/'' # rest \<and> list_all2 seg_accepts segs (split_on CHR ''/'' rest)
                   \<and> gs' = placeholder_values segs (split_on CHR ''/'' rest))"
    and y: "y = dropWhile (\<lambda>c. c \<noteq> CHR ''/'') cs"
  shows "regex_match segs y = Some gs' \<longleftrightarrow>
            list_all2 seg_accepts segs (case y of [] \<Rightarrow> [] | c # r \<Rightarrow> split_on CHR ''/'' r)
            \<and> gs' = placeholder_values segs (case y of [] \<Rightarrow> [] | c # r \<Rightarrow> split_on CHR ''/'' r)"
proof (cases y)
  case Nil
  with IH show ?thesis by auto
next
  case (Cons d r)
  with y have "d = CHR ''/''" using dropWhile_head[of "CHR ''/''" cs d r] by simp
  with Cons IH show ?thesis by (auto simp: split_on_nonempty)
qed

lemma literal_step:
  assumes nosl: "CHR ''/'' \<notin> set l"
    and IHy: "regex_match segs (dropWhile (\<lambda>c. c \<noteq> CHR ''/'') cs) = Some gs \<longleftrightarrow>
            list_all2 seg_accepts segs (case dropWhile (\<lambda>c. c \<noteq> CHR ''/'') cs of [] \<Rightarrow> [] | c # r \<Rightarrow> split_on CHR ''/'' r)
            \<and> gs = placeholder_values segs (case dropWhile (\<lambda>c. c \<noteq> CHR ''/'') cs of [] \<Rightarrow> [] | c # r \<Rightarrow> split_on CHR ''/'' r)"
    and IHd: "regex_match segs (drop (length l) cs) = Some gs \<Longrightarrow>
               drop (length l) cs = [] \<or> (\<exists>r. drop (length l) cs = CHR ''/'' # r)"
  shows "regex_match (Literal l # segs) (CHR ''/'' # cs) = Some gs \<longleftrightarrow>
           list_all2 seg_accepts (Literal l # segs) (split_on CHR ''/'' cs)
           \<and> gs = placeholder_values (Literal l # segs) (split_on CHR ''/'' cs)"
proof (cases "takeWhile (\<lambda>c. c \<noteq> CHR ''/'') cs = l")
  case True
  from literal_rest[OF True] have y: "dropWhile (\<lambda>c. c \<noteq> CHR ''/'') cs = drop (length l) cs" .
  from True literal_prefix[OF nosl, of cs] have tk: "take (length l) cs = l" by simp
  have L: "regex_match (Literal l # segs) (CHR ''/'' # cs) = regex_match segs (drop (length l) cs)"
    using tk by (simp add: startswith_def)
  have R: "split_on CHR ''/'' cs = l # (case drop (length l) cs of [] \<Rightarrow> [] | c # r \<Rightarrow> split_on CHR ''/'' r)"
    using split_on_unfold[of "CHR ''/''" cs] True y by simp
  show ?thesis unfolding L R using IHy unfolding y by simp
next
  case False
  have none: "regex_match (Literal l # segs) (CHR ''/'' # cs) \<noteq> Some gs"
  proof
    assume a: "regex_match (Literal l # segs) (CHR ''/'' # cs) = Some gs"
    then have tk: "take (length l) cs = l" by (simp add: startswith_def split: if_splits)
    with a have "regex_match segs (drop (length l) cs) = Some gs" by (simp add: startswith_def)
    from IHd[OF this] tk literal_prefix[OF nosl, of cs] False show False by blast
  qed
  have "\<not> list_all2 seg_accepts (Literal l # segs) (split_on CHR ''/'' cs)"
    using False by (subst split_on_unfold) simp
  with none show ?thesis by blast
qed

lemma placeholder_step:
  assumes IHy: "\<And>gs'. regex_match segs (dropWhile (\<lambda>c. c \<noteq> CHR ''/'') cs) = Some gs' \<longleftrightarrow>
            list_all2 seg_accepts segs (case dropWhile (\<lambda>c. c \<noteq> CHR ''/'') cs of [] \<Rightarrow> [] | c # r \<Rightarrow> split_on CHR ''/'' r)
            \<and> gs' = placeholder_values segs (case dropWhile (\<lambda>c. c \<noteq> CHR ''/'') cs of [] \<Rightarrow> [] | c # r \<Rightarrow> split_on CHR ''/'' r)"
  shows "regex_match (Placeholder n # segs) (CHR ''/'' # cs) = Some gs \<longleftrightarrow>
           list_all2 seg_accepts (Placeholder n # segs) (split_on CHR ''/'' cs)
           \<and> gs = placeholder_values (Placeholder n # segs) (split_on CHR ''/'' cs)"
proof -
  let ?x = "takeWhile (\<lambda>c. c \<noteq> CHR ''/'') cs"
  let ?t = "case dropWhile (\<lambda>c. c \<noteq> CHR ''/'') cs of [] \<Rightarrow> [] | c # r \<Rightarrow> split_on CHR ''/'' r"
  have R: "split_on CHR ''/'' cs = ?x # ?t" by (rule split_on_unfold)
  have L: "regex_match (Placeholder n # segs) (CHR ''/'' # cs) = Some gs \<longleftrightarrow>
        ?x \<noteq> [] \<and> (\<exists>gs'. regex_match segs (dropWhile (\<lambda>c. c \<noteq> CHR ''/'') cs) = Some gs' \<and> gs = ?x # gs')"
    by (auto simp: Let_def)
  show ?thesis unfolding L R using IHy by auto
qed

lemma regex_match_segments:
  assumes "CHR 0x0A \<notin> set path" and "\<forall>l. Literal l \<in> set segs \<longrightarrow> CHR ''/'' \<notin> set l"
  shows "regex_match segs path = Some gs \<longleftrightarrow>
           (segs = [] \<and> path = [] \<and> gs = []) \<or>
           (\<exists>rest. path = CHR ''/'' # rest \<and> list_all2 seg_accepts segs (split_on CHR ''/'' rest)
                   \<and> gs = placeholder_values segs (split_on CHR ''/'' rest))"
  using assms
proof (induction segs arbitrary: path gs)
  case Nil
  then show ?case by (auto simp: split_on_nonempty)
next
  case (Cons seg segs)
  note IH = Cons.IH and prems = Cons.prems
  have lits: "\<forall>l. Literal l \<in> set segs \<longrightarrow> CHR ''/'' \<notin> set l" using prems(2) by simp
  show ?case
  proof (cases path)
    case Nil
    then show ?thesis by simp
  next
    case path: (Cons c cs)
    show ?thesis
    proof (cases "c = CHR ''/''")
      case False
      with path show ?thesis by simp
    next
      case True
      let ?y = "dropWhile (\<lambda>c. c \<noteq> CHR ''/'') cs"
      have nlcs: "CHR 0x0A \<notin> set cs" using prems(1) path by simp
      have nly: "CHR 0x0A \<notin> set ?y" using nlcs set_dropWhileD by fastforce
      have tail: "\<And>gs'. regex_match segs ?y = Some gs' \<longleftrightarrow>
            list_all2 seg_accepts segs (case ?y of [] \<Rightarrow> [] | c # r \<Rightarrow> split_on CHR ''/'' r)
            \<and> gs' = placeholder_values segs (case ?y of [] \<Rightarrow> [] | c # r \<Rightarrow> split_on CHR ''/'' r)"
        by (rule tail_step[OF IH[OF nly lits] refl])
      have step: "regex_match (seg # segs) (CHR ''/'' # cs) = Some gs \<longleftrightarrow>
           list_all2 seg_accepts (seg # segs) (split_on CHR ''/'' cs)
           \<and> gs = placeholder_values (seg # segs) (split_on CHR ''/'' cs)"
      proof (cases seg)
        case (Literal l)
        have nosl: "CHR ''/'' \<notin> set l" using prems(2) Literal by simp
        have nld: "CHR 0x0A \<notin> set (drop (length l) cs)" using nlcs by (meson in_set_dropD)
        have d: "regex_match segs (drop (length l) cs) = Some gs \<Longrightarrow>
               drop (length l) cs = [] \<or> (\<exists>r. drop (length l) cs = CHR ''/'' # r)"
          using IH[OF nld lits, of gs] by blast
        show ?thesis unfolding Literal by (rule literal_step[OF nosl tail d])
      next
        case (Placeholder n)
        show ?thesis unfolding Placeholder by (rule placeholder_step[OF tail])
      qed
      show ?thesis using step True path by simp
    qed
  qed
qed



lemma dict_get_set:
  "dict_get (dict_set d k v) k' = (if py_key k = py_key k' then Some v else dict_get d k')"
  by (induction d) auto

lemma dict_get_append:
  "dict_get (xs @ ys) k = (case dict_get xs k of Some v \<Rightarrow> Some v | None \<Rightarrow> dict_get ys k)"
  by (induction xs) auto

lemma dict_get_update:
  "dict_get (dict_update d e) k =
     (case dict_get (rev e) k of Some v \<Rightarrow> Some v | None \<Rightarrow> dict_get d k)"
proof (induction e arbitrary: d)
  case Nil
  then show ?case by simp
next
  case (Cons kv e)
  obtain k1 v1 where kv: "kv = (k1, v1)" by (cases kv)
  show ?case unfolding kv
    by (simp add: Cons.IH dict_get_append dict_get_set split: option.splits)
qed

lemma dict_set_keys_sub: "fst ` set (dict_set d k v) \<subseteq> insert k (fst ` set d)"
proof (induction d)
  case Nil
  then show ?case by simp
next
  case (Cons a d)
  obtain k1 v1 where a: "a = (k1, v1)" by (cases a)
  show ?case using Cons unfolding a by (cases "py_key k1 = py_key k") auto
qed

lemma dict_set_keys_norm:
  "py_key ` fst ` set (dict_set d k v) = insert (py_key k) (py_key ` fst ` set d)"
proof (induction d)
  case Nil
  then show ?case by simp
next
  case (Cons a d)
  obtain k1 v1 where a: "a = (k1, v1)" by (cases a)
  show ?case
  proof (cases "py_key k1 = py_key k")
    case True
    then show ?thesis unfolding a by auto
  next
    case False
    then show ?thesis unfolding a using Cons by (simp add: insert_commute)
  qed
qed

lemma dict_update_keys_sub: "fst ` set (dict_update d e) \<subseteq> fst ` set d \<union> fst ` set e"
proof (induction e arbitrary: d)
  case Nil
  show ?case by simp
next
  case (Cons kv e)
  obtain k1 v1 where kv: "kv = (k1, v1)" by (cases kv)
  have "fst ` set (dict_update (dict_set d k1 v1) e) \<subseteq> fst ` set (dict_set d k1 v1) \<union> fst ` set e"
    by (rule Cons.IH)
  also have "\<dots> \<subseteq> insert k1 (fst ` set d) \<union> fst ` set e"
    using dict_set_keys_sub[of d k1 v1] by blast
  finally show ?case unfolding kv by auto
qed

lemma dict_update_keys_norm:
  "py_key ` fst ` set (dict_update d e) = py_key ` fst ` set d \<union> py_key ` fst ` set e"
proof (induction e arbitrary: d)
  case Nil
  show ?case by simp
next
  case (Cons kv e)
  obtain k1 v1 where kv: "kv = (k1, v1)" by (cases kv)
  show ?case unfolding kv by (simp add: Cons.IH dict_set_keys_norm Un_commute insert_commute)
qed


lemma string_keys_of_dict_of:
  assumes "\<forall>k\<in>fst ` set e. \<exists>n. k = VStr n"
  shows "fst ` set (dict_of e) = fst ` set e"
proof -
  have id: "py_key ` K = K" if "\<forall>k\<in>K. \<exists>n. k = VStr n" for K
  proof -
    have "\<And>k. k \<in> K \<Longrightarrow> py_key k = k" using that by auto
    then show ?thesis by (metis image_cong image_ident)
  qed
  have sub: "fst ` set (dict_of e) \<subseteq> fst ` set e"
    using dict_update_keys_sub[of "[]" e] by (simp add: dict_of_def)
  then have str: "\<forall>k\<in>fst ` set (dict_of e). \<exists>n. k = VStr n" using assms by blast
  have "py_key ` fst ` set (dict_of e) = py_key ` fst ` set e"
    using dict_update_keys_norm[of "[]" e] by (simp add: dict_of_def)
  then show ?thesis unfolding id[OF str] id[OF assms] .
qed

lemma dict_get_strings:
  "dict_get (map (\<lambda>(a, b). (VStr a, VStr b)) xs) (VStr n) = map_option VStr (map_of xs n)"
  by (induction xs) auto


lemma params_lookup:
  "dict_get (dict_of (zip (map VStr names) (map VStr values))) (VStr n)
     = map_option VStr (map_of (rev (zip names values)) n)"
proof -
  let ?f = "\<lambda>(a, b). (VStr a, VStr b)"
  have z: "zip (map VStr names) (map VStr values) = map ?f (zip names values)"
    by (simp add: zip_map_map)
  have "dict_get (dict_of (map ?f (zip names values))) (VStr n)
          = dict_get (map ?f (rev (zip names values))) (VStr n)"
    by (simp add: dict_of_def dict_get_update rev_map split: option.splits)
  then show ?thesis unfolding z by (simp only: dict_get_strings)
qed

lemma params_keys:
  assumes "length values = length names"
  shows "fst ` set (dict_of (zip (map VStr names) (map VStr values))) = VStr ` set names"
proof -
  have "fst ` set (zip (map VStr names) (map VStr values)) = VStr ` set names"
    using assms by (metis (no_types) length_map list.set_map map_fst_zip)
  moreover have "\<forall>k\<in>fst ` set (zip (map VStr names) (map VStr values)). \<exists>n. k = VStr n"
    by (auto dest!: set_zip_leftD)
  ultimately show ?thesis using string_keys_of_dict_of by metis
qed


lemma placeholder_values_length:
  "list_all2 seg_accepts segs xs \<Longrightarrow> length (placeholder_values segs xs) = length (param_names segs)"
proof (induction segs arbitrary: xs)
  case Nil
  then show ?case by simp
next
  case (Cons seg segs)
  then obtain x xs' where "xs = x # xs'" by (cases xs) auto
  with Cons show ?case by (cases seg) auto
qed


lemma placeholder_values_nonempty:
  "list_all2 seg_accepts segs xs \<Longrightarrow> v \<in> set (placeholder_values segs xs) \<Longrightarrow> v \<noteq> [] \<and> v \<in> set xs"
proof (induction segs arbitrary: xs)
  case Nil
  then show ?case by simp
next
  case (Cons seg segs)
  then obtain x xs' where "xs = x # xs'" by (cases xs) auto
  with Cons show ?case by (cases seg) auto
qed


lemma pattern_literals:
  "Literal l \<in> set (pattern_segments p) \<Longrightarrow> CHR ''/'' \<notin> set l"
  by (auto simp: pattern_segments_def compile_part_def split: if_splits dest: split_on_no_sep)


lemma pattern_segments_nonempty: "pattern_segments p \<noteq> []"
  by (simp add: pattern_segments_def split_on_nonempty)


lemma path_matches_segments:
  assumes "CHR 0x0A \<notin> set path"
  shows "path_matches p path = (ok, params) \<longleftrightarrow>
     (if (\<exists>rest. path = CHR ''/'' # rest \<and> list_all2 seg_accepts (pattern_segments p) (split_on CHR ''/'' rest))
      then ok \<and> params = dict_of (zip (map VStr (param_names (pattern_segments p)))
                           (map VStr (placeholder_values (pattern_segments p) (split_on CHR ''/'' (tl path)))))
      else \<not> ok \<and> params = [])"
proof -
  have lits: "\<forall>l. Literal l \<in> set (pattern_segments p) \<longrightarrow> CHR ''/'' \<notin> set l"
    using pattern_literals by blast
  note rm = regex_match_segments[OF assms lits]
  show ?thesis
  proof (cases "regex_match (pattern_segments p) path")
    case None
    with rm have "\<not> (\<exists>rest. path = CHR ''/'' # rest \<and> list_all2 seg_accepts (pattern_segments p) (split_on CHR ''/'' rest))"
      by (metis option.distinct(1))
    with None show ?thesis
      by (auto simp: path_matches_def Let_def pattern_segments_def[symmetric])
  next
    case (Some gs)
    with rm[of gs] pattern_segments_nonempty[of p]
    obtain rest where r: "path = CHR ''/'' # rest"
       "list_all2 seg_accepts (pattern_segments p) (split_on CHR ''/'' rest)"
       "gs = placeholder_values (pattern_segments p) (split_on CHR ''/'' rest)" by auto
    have e: "param_names (pattern_segments p) = [] \<Longrightarrow> gs = []"
      using placeholder_values_length[OF r(2)] r(3) by simp
    have "path_matches p path = (True, dict_of (zip (map VStr (param_names (pattern_segments p))) (map VStr gs)))"
      using Some e by (auto simp: path_matches_def Let_def pattern_segments_def[symmetric] dict_of_def)
    with r show ?thesis by auto
  qed
qed


lemma find_api_None:
  "find_api apis m p = None \<longleftrightarrow>
     (\<forall>a\<in>set apis. \<not> (api_method a = m \<and> fst (path_matches (api_path a) p)))"
  by (induction apis) (auto split: prod.splits bool.splits)

lemma find_api_Some:
  "find_api apis m p = Some (a, ps) \<longleftrightarrow>
     (\<exists>before after. apis = before @ a # after
        \<and> (\<forall>b\<in>set before. \<not> (api_method b = m \<and> fst (path_matches (api_path b) p)))
        \<and> api_method a = m \<and> path_matches (api_path a) p = (True, ps))"
proof (induction apis)
  case Nil
  then show ?case by simp
next
  case (Cons x apis)
  let ?q = "\<lambda>b. api_method b = m \<and> fst (path_matches (api_path b) p)"
  show ?case
  proof (cases "?q x")
    case True
    then obtain ps' where pm: "path_matches (api_path x) p = (True, ps')"
      by (cases "path_matches (api_path x) p") auto
    with True have f: "find_api (x # apis) m p = Some (x, ps')" by simp
    show ?thesis
    proof
      assume "find_api (x # apis) m p = Some (a, ps)"
      with f have "a = x" "ps = ps'" by auto
      with True pm show "\<exists>before after. x # apis = before @ a # after
        \<and> (\<forall>b\<in>set before. \<not> ?q b) \<and> api_method a = m \<and> path_matches (api_path a) p = (True, ps)"
        by (intro exI[of _ "[]"] exI[of _ apis]) simp
    next
      assume "\<exists>before after. x # apis = before @ a # after
        \<and> (\<forall>b\<in>set before. \<not> ?q b) \<and> api_method a = m \<and> path_matches (api_path a) p = (True, ps)"
      then obtain before after where d: "x # apis = before @ a # after" "\<forall>b\<in>set before. \<not> ?q b"
        "path_matches (api_path a) p = (True, ps)" by blast
      from d(1,2) True have "before = []" by (cases before) auto
      with d(1) have "a = x" by simp
      with f pm d(3) show "find_api (x # apis) m p = Some (a, ps)" by simp
    qed
  next
    case False
    then have f: "find_api (x # apis) m p = find_api apis m p"
      by (cases "path_matches (api_path x) p") (auto split: bool.splits)
    show ?thesis
    proof
      assume "find_api (x # apis) m p = Some (a, ps)"
      with f Cons.IH obtain before after where d: "apis = before @ a # after" "\<forall>b\<in>set before. \<not> ?q b"
        "api_method a = m" "path_matches (api_path a) p = (True, ps)" by auto
      with False show "\<exists>before after. x # apis = before @ a # after
        \<and> (\<forall>b\<in>set before. \<not> ?q b) \<and> api_method a = m \<and> path_matches (api_path a) p = (True, ps)"
        by (intro exI[of _ "x # before"] exI[of _ after]) simp
    next
      assume "\<exists>before after. x # apis = before @ a # after
        \<and> (\<forall>b\<in>set before. \<not> ?q b) \<and> api_method a = m \<and> path_matches (api_path a) p = (True, ps)"
      then obtain before after where d: "x # apis = before @ a # after" "\<forall>b\<in>set before. \<not> ?q b"
        "api_method a = m" "path_matches (api_path a) p = (True, ps)" by blast
      from d False obtain before' where b: "before = x # before'" by (cases before) auto
      with d have "apis = before' @ a # after" "\<forall>b\<in>set before'. \<not> ?q b" by auto
      with d(3,4) Cons.IH f show "find_api (x # apis) m p = Some (a, ps)" by auto
    qed
  qed
qed

lemma endpoint_matches_code:
  assumes "CHR 0x0A \<notin> set path"
  shows "endpoint_matches a m path \<longleftrightarrow> api_method a = m \<and> fst (path_matches (api_path a) path)"
proof -
  obtain ok ps where pm: "path_matches (api_path a) path = (ok, ps)"
    by (cases "path_matches (api_path a) path")
  from path_matches_segments[OF assms, of "api_path a" ok ps] pm
  have "ok \<longleftrightarrow> (\<exists>rest. path = CHR ''/'' # rest \<and>
          list_all2 seg_accepts (pattern_segments (api_path a)) (split_on CHR ''/'' rest))"
    by (simp split: if_splits)
  then show ?thesis unfolding endpoint_matches_def pm by (cases path) auto
qed

lemma matched_params:
  assumes nl: "CHR 0x0A \<notin> set path" and pm: "path_matches p path = (True, ps)"
  shows "ps = dict_of (zip (map VStr (param_names (pattern_segments p)))
                   (map VStr (placeholder_values (pattern_segments p) (split_on CHR ''/'' (tl path)))))
       \<and> list_all2 seg_accepts (pattern_segments p) (split_on CHR ''/'' (tl path))"
  using path_matches_segments[OF nl, of p True ps] pm by (auto split: if_splits)

lemma params_distinct:
  assumes "distinct names" "length vals = length names" "i < length names"
  shows "map_of (rev (zip names vals)) (names ! i) = Some (vals ! i)"
proof -
  have d: "distinct (map fst (zip names vals))" using assms by simp
  then have "distinct (map fst (rev (zip names vals)))" by (simp add: rev_map[symmetric])
  from map_of_inject_set[OF this d] have "map_of (rev (zip names vals)) = map_of (zip names vals)"
    by simp
  then show ?thesis using map_of_zip_nth[of names vals i] assms by simp
qed

text \<open>
  C8. For a request path without a newline (the request line is split at whitespace, so
  no path has one): the endpoints are tried in registry order and the first one whose
  method is the request's and whose pattern matches is the result, whatever comes after
  it; a pattern matches exactly when the path is a slash followed by as many
  slash-separated segments as the pattern has parts, each literal part equal to its
  segment and each placeholder facing a segment that is not empty; the parameter map has
  exactly the placeholder names as keys and gives each name the text of its segment (the
  last one, should a name be repeated); and when no endpoint qualifies the result is
  \<open>None\<close>, which \<open>process_request\<close> answers with 404.
\<close>

theorem route_matching:
  assumes nl: "CHR 0x0A \<notin> set path"
  shows "(find_api apis method path = None \<longleftrightarrow> (\<forall>a\<in>set apis. \<not> endpoint_matches a method path))
   \<and> (find_api apis method path = None \<and> \<not> (method = ''GET'' \<and> path = ''/docs'') \<and> path = path_of raw
        \<longrightarrow> process_request w apis s method raw content_type body
              = ((404, JsonBody (error_body ''API endpoint not found'')), s))
   \<and> (\<forall>a params. find_api apis method path = Some (a, params) \<longrightarrow>
        (\<exists>before after. apis = before @ a # after
            \<and> (\<forall>b\<in>set before. \<not> endpoint_matches b method path) \<and> endpoint_matches a method path)
        \<and> (let names = param_names (pattern_segments (api_path a));
                values = placeholder_values (pattern_segments (api_path a)) (split_on CHR ''/'' (tl path))
            in length values = length names
               \<and> (\<forall>v\<in>set values. v \<noteq> [] \<and> CHR ''/'' \<notin> set v \<and> v \<in> set (split_on CHR ''/'' (tl path)))
               \<and> fst ` set params = VStr ` set names
               \<and> (\<forall>n. dict_get params (VStr n) = map_option VStr (map_of (rev (zip names values)) n))
               \<and> (distinct names \<longrightarrow>
                    (\<forall>i<length names. dict_get params (VStr (names ! i)) = Some (VStr (values ! i))))))
   \<and> (\<forall>a before after. apis = before @ a # after
          \<and> (\<forall>b\<in>set before. \<not> endpoint_matches b method path) \<and> endpoint_matches a method path
        \<longrightarrow> (\<exists>params. find_api apis method path = Some (a, params)))"
proof -
  note em = endpoint_matches_code[OF nl]
  have A: "find_api apis method path = None \<longleftrightarrow> (\<forall>a\<in>set apis. \<not> endpoint_matches a method path)"
    unfolding find_api_None em ..
  have B: "process_request w apis s method raw content_type body
              = ((404, JsonBody (error_body ''API endpoint not found'')), s)"
    if "find_api apis method path = None \<and> \<not> (method = ''GET'' \<and> path = ''/docs'') \<and> path = path_of raw"
    using that by (auto simp: process_request_def Let_def)
  have C: "(\<exists>before after. apis = before @ a # after
            \<and> (\<forall>b\<in>set before. \<not> endpoint_matches b method path) \<and> endpoint_matches a method path)
        \<and> (let names = param_names (pattern_segments (api_path a));
                values = placeholder_values (pattern_segments (api_path a)) (split_on CHR ''/'' (tl path))
            in length values = length names
               \<and> (\<forall>v\<in>set values. v \<noteq> [] \<and> CHR ''/'' \<notin> set v \<and> v \<in> set (split_on CHR ''/'' (tl path)))
               \<and> fst ` set params = VStr ` set names
               \<and> (\<forall>n. dict_get params (VStr n) = map_option VStr (map_of (rev (zip names values)) n))
               \<and> (distinct names \<longrightarrow>
                    (\<forall>i<length names. dict_get params (VStr (names ! i)) = Some (VStr (values ! i)))))"
    if f: "find_api apis method path = Some (a, params)" for a params
  proof -
    let ?names = "param_names (pattern_segments (api_path a))"
    let ?vals = "placeholder_values (pattern_segments (api_path a)) (split_on CHR ''/'' (tl path))"
    from f[unfolded find_api_Some] obtain before after where
      d: "apis = before @ a # after"
         "\<forall>b\<in>set before. \<not> (api_method b = method \<and> fst (path_matches (api_path b) path))"
         "api_method a = method" "path_matches (api_path a) path = (True, params)" by blast
    have 1: "\<exists>before after. apis = before @ a # after
            \<and> (\<forall>b\<in>set before. \<not> endpoint_matches b method path) \<and> endpoint_matches a method path"
      using d unfolding em by (intro exI[of _ before] exI[of _ after]) simp
    from matched_params[OF nl d(4)] have
      ps: "params = dict_of (zip (map VStr ?names) (map VStr ?vals))"
      and acc: "list_all2 seg_accepts (pattern_segments (api_path a)) (split_on CHR ''/'' (tl path))"
      by blast+
    have len: "length ?vals = length ?names" by (rule placeholder_values_length[OF acc])
    have vals: "\<forall>v\<in>set ?vals. v \<noteq> [] \<and> CHR ''/'' \<notin> set v \<and> v \<in> set (split_on CHR ''/'' (tl path))"
      using placeholder_values_nonempty[OF acc] split_on_no_sep by blast
    have keys: "fst ` set params = VStr ` set ?names" unfolding ps by (rule params_keys[OF len])
    have look: "\<forall>n. dict_get params (VStr n) = map_option VStr (map_of (rev (zip ?names ?vals)) n)"
      unfolding ps by (simp add: params_lookup)
    have dist: "distinct ?names \<longrightarrow>
                    (\<forall>i<length ?names. dict_get params (VStr (?names ! i)) = Some (VStr (?vals ! i)))"
      using look params_distinct[OF _ len] by simp
    from 1 len vals keys look dist show ?thesis unfolding Let_def by (intro conjI)
  qed
  have D: "\<exists>params. find_api apis method path = Some (a, params)"
    if "apis = before @ a # after
          \<and> (\<forall>b\<in>set before. \<not> endpoint_matches b method path) \<and> endpoint_matches a method path"
    for a before after
  proof -
    from that[unfolded em] obtain ps where "path_matches (api_path a) path = (True, ps)"
      by (cases "path_matches (api_path a) path") auto
    with that[unfolded em] have "find_api apis method path = Some (a, ps)"
      unfolding find_api_Some by blast
    then show ?thesis ..
  qed
  from A B C D show ?thesis by blast
qed

theorem route_matching_witness:
  "CHR 0x0A \<notin> set ''/items/42''
   \<and> find_api demo_apis ''GET'' ''/items/42'' = Some (demo_apis ! 0, [(VStr ''id'', VStr ''42'')])
   \<and> endpoint_matches (demo_apis ! 0) ''GET'' ''/items/42''
   \<and> endpoint_matches (demo_apis ! 1) ''GET'' ''/items/42''
   \<and> dict_get [(VStr ''id'', VStr ''42'')] (VStr ''id'') = Some (VStr ''42'')
   \<and> find_api demo_apis ''GET'' ''/items/42/parts'' = None"
proof -
  have nl: "CHR 0x0A \<notin> set ''/items/42''" by simp
  have f: "find_api demo_apis ''GET'' ''/items/42'' = Some (demo_apis ! 0, [(VStr ''id'', VStr ''42'')])"
    by code_simp
  have e0: "endpoint_matches (demo_apis ! 0) ''GET'' ''/items/42''" by code_simp
  have e1: "endpoint_matches (demo_apis ! 1) ''GET'' ''/items/42''" by code_simp
  have nm: "param_names (pattern_segments (api_path (demo_apis ! 0))) = [''id'']" by code_simp
  have vs: "placeholder_values (pattern_segments (api_path (demo_apis ! 0)))
              (split_on CHR ''/'' (tl ''/items/42'')) = [''42'']" by code_simp
  have n: "find_api demo_apis ''GET'' ''/items/42/parts'' = None" by code_simp
  note th = route_matching[OF nl, of demo_apis "''GET''"]
  from th[THEN conjunct2, THEN conjunct2, THEN conjunct1, rule_format, OF f]
  have "\<forall>n. dict_get [(VStr ''id'', VStr ''42'')] (VStr n)
           = map_option VStr (map_of (rev (zip [''id''] [''42''])) n)"
    unfolding Let_def nm vs by blast
  then have g: "dict_get [(VStr ''id'', VStr ''42'')] (VStr ''id'') = Some (VStr ''42'')" by simp
  from nl f e0 e1 g n show ?thesis by (intro conjI)
qed

section \<open>Properties of the query-string coercion\<close>




lemma count_char_0: "c \<notin> set v \<Longrightarrow> count_char c v = 0"
  by (induction v) (auto simp: count_char_def)

lemma count_char_pos: "c \<in> set v \<Longrightarrow> 0 < count_char c v"
  by (induction v) (auto simp: count_char_def)

lemma remove_first_absent: "c \<notin> set v \<Longrightarrow> remove_first c v = v"
  by (induction v) auto









lemma remove_first_keeps_head:
  "x \<noteq> c \<Longrightarrow> remove_first c (x # xs) = x # remove_first c xs"
  by simp












section \<open>Properties of the finalizer\<close>









section \<open>Properties of the body decoder and of the merged input\<close>


lemma parse_body_json:
  assumes "contains (lower (case header of None \<Rightarrow> [] | Some h \<Rightarrow> h)) ''json''
             \<or> startswith (strip body) ''{''"
  shows "parse_body loads rd header body =
           (case loads body of
              None \<Rightarrow> InvalidJSON
            | Some v \<Rightarrow> (case py_update rd v of None \<Rightarrow> BodyException | Some d \<Rightarrow> Merged d))"
  using assms by (simp add: parse_body_def Let_def)

lemma parse_body_form:
  assumes "\<not> (contains (lower (case header of None \<Rightarrow> [] | Some h \<Rightarrow> h)) ''json''
             \<or> startswith (strip body) ''{'')"
    and "contains (lower (case header of None \<Rightarrow> [] | Some h \<Rightarrow> h)) ''x-www-form-urlencoded''"
  shows "parse_body loads rd header body = Merged (dict_update rd (form_data body))"
  using assms by (simp add: parse_body_def Let_def)

lemma parse_body_last_resort:
  assumes "\<not> (contains (lower (case header of None \<Rightarrow> [] | Some h \<Rightarrow> h)) ''json''
             \<or> startswith (strip body) ''{'')"
    and "\<not> contains (lower (case header of None \<Rightarrow> [] | Some h \<Rightarrow> h)) ''x-www-form-urlencoded''"
  shows "parse_body loads rd header body =
           (if strip body \<noteq> []
            then (case loads body of
                    None \<Rightarrow> InvalidBodyFormat
                  | Some v \<Rightarrow> (case py_update rd v of None \<Rightarrow> InvalidBodyFormat | Some d \<Rightarrow> Merged d))
            else Merged rd)"
  using assms by (simp add: parse_body_def Let_def)

lemma request_data_of_body:
  "method = ''POST'' \<or> method = ''PUT'' \<Longrightarrow>
     request_data_of w pp method raw header body
       = parse_body (json_loads w) (dict_update (dict_update [] pp) (query_params_of w raw)) header body"
  by (auto simp: request_data_of_def query_params_of_def Let_def)

lemma request_data_of_no_body:
  "method \<noteq> ''POST'' \<Longrightarrow> method \<noteq> ''PUT'' \<Longrightarrow>
     request_data_of w pp method raw header body
       = Merged (dict_update (dict_update [] pp) (query_params_of w raw))"
  by (auto simp: request_data_of_def query_params_of_def Let_def)





lemma dict_set_values: "snd ` set (dict_set d k v) \<subseteq> insert v (snd ` set d)"
proof (induction d)
  case Nil
  then show ?case by simp
next
  case (Cons a d)
  obtain k1 v1 where a: "a = (k1, v1)" by (cases a)
  show ?case using Cons unfolding a by (cases "py_key k1 = py_key k") auto
qed

lemma dict_update_values: "snd ` set (dict_update d e) \<subseteq> snd ` set d \<union> snd ` set e"
proof (induction e arbitrary: d)
  case Nil
  show ?case by simp
next
  case (Cons kv e)
  obtain k1 v1 where kv: "kv = (k1, v1)" by (cases kv)
  have "snd ` set (dict_update (dict_set d k1 v1) e) \<subseteq> snd ` set (dict_set d k1 v1) \<union> snd ` set e"
    by (rule Cons.IH)
  also have "\<dots> \<subseteq> insert v1 (snd ` set d) \<union> snd ` set e"
    using dict_set_values[of d k1 v1] by blast
  finally show ?case unfolding kv by auto
qed

lemma path_params_strings:
  assumes "path_matches p path = (ok, pp)" and "(k, v) \<in> set pp"
  shows "(\<exists>n. k = VStr n) \<and> (\<exists>t. v = VStr t)"
proof -
  from assms obtain names groups where pp: "pp = dict_of (zip (map VStr names) (map VStr groups))"
    by (auto simp: path_matches_def Let_def split: option.splits if_splits)
  have "k \<in> fst ` set pp" "v \<in> snd ` set pp" using assms(2) by force+
  then have "k \<in> fst ` set (zip (map VStr names) (map VStr groups))"
            "v \<in> snd ` set (zip (map VStr names) (map VStr groups))"
    using dict_update_keys_sub[of "[]" "zip (map VStr names) (map VStr groups)"]
          dict_update_values[of "[]" "zip (map VStr names) (map VStr groups)"]
    unfolding pp dict_of_def by auto
  then have "k \<in> set (map VStr names)" "v \<in> set (map VStr groups)"
    by (auto dest: set_zip_leftD set_zip_rightD)
  then show ?thesis by auto
qed

lemma merged_lookup:
  "dict_get (dict_update (dict_update (dict_update [] pp) q) b) k
     = (case dict_get (rev b) k of
          Some v \<Rightarrow> Some v
        | None \<Rightarrow> (case dict_get (rev q) k of Some v \<Rightarrow> Some v | None \<Rightarrow> dict_get (rev pp) k))"
  by (simp add: dict_get_update split: option.splits)

text \<open>
  C7. The merged input of a matched request is the empty dict updated with the path
  parameters (strings, as the matcher gave them), then with the query parameters, then,
  for POST and PUT, with the fields of the body (a JSON object, or form data). A key is
  looked up in the body first, then in the query parameters, then in the path
  parameters: a later source overwrites an earlier one. With path parameter \<open>id=1\<close>,
  query parameter \<open>id=2\<close> and body field \<open>id=3\<close> the merged value of \<open>id\<close> is 3.
\<close>

theorem merged_input_precedence:
  "(method \<noteq> ''POST'' \<and> method \<noteq> ''PUT'' \<longrightarrow>
      request_data_of w pp method raw header body
        = Merged (dict_update (dict_update [] pp) (query_params_of w raw)))
   \<and> (\<forall>fields. (method = ''POST'' \<or> method = ''PUT'') \<and> json_loads w body = Some (VDict fields)
         \<and> (contains (lower (case header of None \<Rightarrow> [] | Some h \<Rightarrow> h)) ''json''
              \<or> startswith (strip body) ''{''
              \<or> (\<not> contains (lower (case header of None \<Rightarrow> [] | Some h \<Rightarrow> h)) ''x-www-form-urlencoded''
                  \<and> strip body \<noteq> []))
        \<longrightarrow> request_data_of w pp method raw header body
              = Merged (dict_update (dict_update (dict_update [] pp) (query_params_of w raw)) fields))
   \<and> ((method = ''POST'' \<or> method = ''PUT'')
         \<and> \<not> (contains (lower (case header of None \<Rightarrow> [] | Some h \<Rightarrow> h)) ''json''
                \<or> startswith (strip body) ''{'')
         \<and> contains (lower (case header of None \<Rightarrow> [] | Some h \<Rightarrow> h)) ''x-www-form-urlencoded''
        \<longrightarrow> request_data_of w pp method raw header body
              = Merged (dict_update (dict_update (dict_update [] pp) (query_params_of w raw)) (form_data body)))
   \<and> (\<forall>q b k. dict_get (dict_update (dict_update (dict_update [] pp) q) b) k
         = (case dict_get (rev b) k of
              Some v \<Rightarrow> Some v
            | None \<Rightarrow> (case dict_get (rev q) k of Some v \<Rightarrow> Some v | None \<Rightarrow> dict_get (rev pp) k)))
   \<and> (\<forall>apis a path. find_api apis method path = Some (a, pp)
         \<longrightarrow> (\<forall>(k, v)\<in>set pp. (\<exists>n. k = VStr n) \<and> (\<exists>t. v = VStr t)))"
proof -
  define ct where "ct = lower (case header of None \<Rightarrow> [] | Some h \<Rightarrow> h)"
  define rd where "rd = dict_update (dict_update [] pp) (query_params_of w raw)"
  have A: "method \<noteq> ''POST'' \<and> method \<noteq> ''PUT'' \<longrightarrow>
      request_data_of w pp method raw header body = Merged rd"
    unfolding rd_def using request_data_of_no_body by blast
  have B: "\<forall>fields. (method = ''POST'' \<or> method = ''PUT'') \<and> json_loads w body = Some (VDict fields)
         \<and> (contains ct ''json'' \<or> startswith (strip body) ''{''
              \<or> (\<not> contains ct ''x-www-form-urlencoded'' \<and> strip body \<noteq> []))
        \<longrightarrow> request_data_of w pp method raw header body = Merged (dict_update rd fields)"
  proof (intro allI impI)
    fix fields
    assume h: "(method = ''POST'' \<or> method = ''PUT'') \<and> json_loads w body = Some (VDict fields)
         \<and> (contains ct ''json'' \<or> startswith (strip body) ''{''
              \<or> (\<not> contains ct ''x-www-form-urlencoded'' \<and> strip body \<noteq> []))"
    then have r: "request_data_of w pp method raw header body = parse_body (json_loads w) rd header body"
      unfolding rd_def using request_data_of_body by blast
    show "request_data_of w pp method raw header body = Merged (dict_update rd fields)"
    proof (cases "contains ct ''json'' \<or> startswith (strip body) ''{''")
      case True
      with h show ?thesis unfolding r
        using parse_body_json[of header body "json_loads w" rd, folded ct_def] by simp
    next
      case False
      with h have nf: "\<not> contains ct ''x-www-form-urlencoded''" and ne: "strip body \<noteq> []" by auto
      from False nf ne h show ?thesis unfolding r
        using parse_body_last_resort[of header body "json_loads w" rd, folded ct_def] by simp
    qed
  qed
  have C: "(method = ''POST'' \<or> method = ''PUT'')
         \<and> \<not> (contains ct ''json'' \<or> startswith (strip body) ''{'')
         \<and> contains ct ''x-www-form-urlencoded''
        \<longrightarrow> request_data_of w pp method raw header body = Merged (dict_update rd (form_data body))"
    using request_data_of_body[of _ w pp raw header body]
          parse_body_form[of header body "json_loads w" rd, folded ct_def]
    unfolding rd_def by auto
  have D: "\<forall>q b k. dict_get (dict_update (dict_update (dict_update [] pp) q) b) k
         = (case dict_get (rev b) k of
              Some v \<Rightarrow> Some v
            | None \<Rightarrow> (case dict_get (rev q) k of Some v \<Rightarrow> Some v | None \<Rightarrow> dict_get (rev pp) k))"
    by (intro allI) (rule merged_lookup)
  have E: "\<forall>apis a path. find_api apis method path = Some (a, pp)
         \<longrightarrow> (\<forall>(k, v)\<in>set pp. (\<exists>n. k = VStr n) \<and> (\<exists>t. v = VStr t))"
  proof (intro allI impI)
    fix apis a path
    assume "find_api apis method path = Some (a, pp)"
    then have "path_matches (api_path a) path = (True, pp)" unfolding find_api_Some by blast
    from path_params_strings[OF this] show "\<forall>(k, v)\<in>set pp. (\<exists>n. k = VStr n) \<and> (\<exists>t. v = VStr t)"
      by blast
  qed
  show ?thesis
    unfolding ct_def[symmetric] rd_def[symmetric]
    apply (rule conjI[OF A])
    apply (rule conjI[OF B])
    apply (rule conjI[OF C])
    apply (rule conjI[OF D])
    apply (rule E)
    done
qed

theorem merged_input_precedence_witness:
  "find_api demo_apis ''POST'' (path_of ''/items/1?id=2'') = Some (demo_apis ! 2, [(VStr ''id'', VStr ''1'')])
   \<and> query_params_of (demo_world (\<lambda>turn transcript. ApiError) demo_env) ''/items/1?id=2''
        = [(VStr ''id'', VInt 2)]
   \<and> json_parse (''{'' @ quoted ''id'' @ '': 3}'') = Some (VDict [(VStr ''id'', VInt 3)])
   \<and> request_data_of (demo_world (\<lambda>turn transcript. ApiError) demo_env) [(VStr ''id'', VStr ''1'')]
        ''POST'' ''/items/1?id=2'' (Some ''application/json'') (''{'' @ quoted ''id'' @ '': 3}'')
        = Merged [(VStr ''id'', VInt 3)]
   \<and> request_data_of (demo_world (\<lambda>turn transcript. ApiError) demo_env) [(VStr ''id'', VStr ''1'')]
        ''GET'' ''/items/1?id=2'' None []
        = Merged [(VStr ''id'', VInt 2)]
   \<and> dict_get (dict_update (dict_update (dict_update [] [(VStr ''id'', VStr ''1'')]) [(VStr ''id'', VInt 2)])
                [(VStr ''id'', VInt 3)]) (VStr ''id'') = Some (VInt 3)"
proof -
  let ?w = "demo_world (\<lambda>turn transcript. ApiError) demo_env"
  let ?body = "''{'' @ quoted ''id'' @ '': 3}''"
  have f: "find_api demo_apis ''POST'' (path_of ''/items/1?id=2'') = Some (demo_apis ! 2, [(VStr ''id'', VStr ''1'')])"
    by code_simp
  have q: "query_params_of ?w ''/items/1?id=2'' = [(VStr ''id'', VInt 2)]" by code_simp
  have j: "json_parse ?body = Some (VDict [(VStr ''id'', VInt 3)])" by code_simp
  have jl: "json_loads ?w = json_parse" by (simp add: demo_world_def)
  have h: "(''POST'' = ''POST'' \<or> ''POST'' = ''PUT'') \<and> json_loads ?w ?body = Some (VDict [(VStr ''id'', VInt 3)])
         \<and> (contains (lower (case Some ''application/json'' of None \<Rightarrow> [] | Some h \<Rightarrow> h)) ''json''
              \<or> startswith (strip ?body) ''{''
              \<or> (\<not> contains (lower (case Some ''application/json'' of None \<Rightarrow> [] | Some h \<Rightarrow> h)) ''x-www-form-urlencoded''
                  \<and> strip ?body \<noteq> []))"
    unfolding jl by code_simp
  have m: "dict_update (dict_update (dict_update [] [(VStr ''id'', VStr ''1'')]) [(VStr ''id'', VInt 2)])
             [(VStr ''id'', VInt 3)] = [(VStr ''id'', VInt 3)]" by code_simp
  have m2: "dict_update (dict_update [] [(VStr ''id'', VStr ''1'')]) [(VStr ''id'', VInt 2)]
             = [(VStr ''id'', VInt 2)]" by code_simp
  have 1: "request_data_of ?w [(VStr ''id'', VStr ''1'')]
        ''POST'' ''/items/1?id=2'' (Some ''application/json'') ?body = Merged [(VStr ''id'', VInt 3)]"
    using merged_input_precedence[of "''POST''" ?w "[(VStr ''id'', VStr ''1'')]" "''/items/1?id=2''"
        "Some ''application/json''" ?body, THEN conjunct2, THEN conjunct1, rule_format, OF h]
    unfolding q m .
  have g: "''GET'' \<noteq> ''POST'' \<and> ''GET'' \<noteq> ''PUT''" by simp
  have 2: "request_data_of ?w [(VStr ''id'', VStr ''1'')] ''GET'' ''/items/1?id=2'' None []
        = Merged [(VStr ''id'', VInt 2)]"
    using merged_input_precedence[of "''GET''" ?w "[(VStr ''id'', VStr ''1'')]" "''/items/1?id=2''"
        None "[]", THEN conjunct1, rule_format, OF g]
    unfolding q m2 .
  have 3: "dict_get (dict_update (dict_update (dict_update [] [(VStr ''id'', VStr ''1'')]) [(VStr ''id'', VInt 2)])
                [(VStr ''id'', VInt 3)]) (VStr ''id'') = Some (VInt 3)"
    unfolding m by simp
  from f q j 1 2 3 show ?thesis by (intro conjI)
qed

section \<open>Properties of the orchestration loop\<close>








end
